theory Spec2Isabelle
  imports Main "HOL-Library.Word"
begin

unbundle bit_operations_syntax

chapter \<open>The Rijndael block cipher and the streaming base-N codec\<close>

text \<open>
  A shallow embedding of \<^verbatim>\<open>rijndael.cpp\<close> (key schedule, table filler, single-block
  encryption and decryption) and of \<^verbatim>\<open>basecode.cpp\<close> (base-N encoder, decoder and
  grouper), followed by the properties proved about them.

  Configuration. The cipher is embedded as compiled for a little-endian target without
  \<^verbatim>\<open>CRYPTOPP_ALLOW_UNALIGNED_DATA_ACCESS\<close> and without the SSE2 assembly: the lookup tables
  are \<^verbatim>\<open>word32 Te[256*4], Td[256*4]\<close>, and \<^verbatim>\<open>ProcessAndXorBlock\<close> is the portable C++
  body. Bytes are \<open>8 word\<close>, \<^verbatim>\<open>word32\<close> and \<^verbatim>\<open>unsigned int\<close> are \<open>32 word\<close>.
\<close>

type_synonym byte = "8 word"
type_synonym word32 = "32 word"

datatype error =
    InvalidKeyLength
  | InvalidArgument string
  | OutOfBounds
  | AssertionFailed
  | Diverges

section \<open>Rijndael: tables\<close>

text \<open>
  Modelled from the spec: the S-boxes \<^verbatim>\<open>Se\<close> and \<^verbatim>\<open>Sd\<close> are defined in
  \<^verbatim>\<open>rdtables.cpp\<close>, which is not among the sources. The specification fixes them as the
  two immutable 256-byte tables given by the AES standard (forward and inverse S-box).
\<close>

definition Se :: "byte list" where
  "Se = [
   0x63, 0x7c, 0x77, 0x7b, 0xf2, 0x6b, 0x6f, 0xc5, 0x30, 0x01, 0x67, 0x2b, 0xfe, 0xd7, 0xab, 0x76,
   0xca, 0x82, 0xc9, 0x7d, 0xfa, 0x59, 0x47, 0xf0, 0xad, 0xd4, 0xa2, 0xaf, 0x9c, 0xa4, 0x72, 0xc0,
   0xb7, 0xfd, 0x93, 0x26, 0x36, 0x3f, 0xf7, 0xcc, 0x34, 0xa5, 0xe5, 0xf1, 0x71, 0xd8, 0x31, 0x15,
   0x04, 0xc7, 0x23, 0xc3, 0x18, 0x96, 0x05, 0x9a, 0x07, 0x12, 0x80, 0xe2, 0xeb, 0x27, 0xb2, 0x75,
   0x09, 0x83, 0x2c, 0x1a, 0x1b, 0x6e, 0x5a, 0xa0, 0x52, 0x3b, 0xd6, 0xb3, 0x29, 0xe3, 0x2f, 0x84,
   0x53, 0xd1, 0x00, 0xed, 0x20, 0xfc, 0xb1, 0x5b, 0x6a, 0xcb, 0xbe, 0x39, 0x4a, 0x4c, 0x58, 0xcf,
   0xd0, 0xef, 0xaa, 0xfb, 0x43, 0x4d, 0x33, 0x85, 0x45, 0xf9, 0x02, 0x7f, 0x50, 0x3c, 0x9f, 0xa8,
   0x51, 0xa3, 0x40, 0x8f, 0x92, 0x9d, 0x38, 0xf5, 0xbc, 0xb6, 0xda, 0x21, 0x10, 0xff, 0xf3, 0xd2,
   0xcd, 0x0c, 0x13, 0xec, 0x5f, 0x97, 0x44, 0x17, 0xc4, 0xa7, 0x7e, 0x3d, 0x64, 0x5d, 0x19, 0x73,
   0x60, 0x81, 0x4f, 0xdc, 0x22, 0x2a, 0x90, 0x88, 0x46, 0xee, 0xb8, 0x14, 0xde, 0x5e, 0x0b, 0xdb,
   0xe0, 0x32, 0x3a, 0x0a, 0x49, 0x06, 0x24, 0x5c, 0xc2, 0xd3, 0xac, 0x62, 0x91, 0x95, 0xe4, 0x79,
   0xe7, 0xc8, 0x37, 0x6d, 0x8d, 0xd5, 0x4e, 0xa9, 0x6c, 0x56, 0xf4, 0xea, 0x65, 0x7a, 0xae, 0x08,
   0xba, 0x78, 0x25, 0x2e, 0x1c, 0xa6, 0xb4, 0xc6, 0xe8, 0xdd, 0x74, 0x1f, 0x4b, 0xbd, 0x8b, 0x8a,
   0x70, 0x3e, 0xb5, 0x66, 0x48, 0x03, 0xf6, 0x0e, 0x61, 0x35, 0x57, 0xb9, 0x86, 0xc1, 0x1d, 0x9e,
   0xe1, 0xf8, 0x98, 0x11, 0x69, 0xd9, 0x8e, 0x94, 0x9b, 0x1e, 0x87, 0xe9, 0xce, 0x55, 0x28, 0xdf,
   0x8c, 0xa1, 0x89, 0x0d, 0xbf, 0xe6, 0x42, 0x68, 0x41, 0x99, 0x2d, 0x0f, 0xb0, 0x54, 0xbb, 0x16]"

definition Sd :: "byte list" where
  "Sd = [
   0x52, 0x09, 0x6a, 0xd5, 0x30, 0x36, 0xa5, 0x38, 0xbf, 0x40, 0xa3, 0x9e, 0x81, 0xf3, 0xd7, 0xfb,
   0x7c, 0xe3, 0x39, 0x82, 0x9b, 0x2f, 0xff, 0x87, 0x34, 0x8e, 0x43, 0x44, 0xc4, 0xde, 0xe9, 0xcb,
   0x54, 0x7b, 0x94, 0x32, 0xa6, 0xc2, 0x23, 0x3d, 0xee, 0x4c, 0x95, 0x0b, 0x42, 0xfa, 0xc3, 0x4e,
   0x08, 0x2e, 0xa1, 0x66, 0x28, 0xd9, 0x24, 0xb2, 0x76, 0x5b, 0xa2, 0x49, 0x6d, 0x8b, 0xd1, 0x25,
   0x72, 0xf8, 0xf6, 0x64, 0x86, 0x68, 0x98, 0x16, 0xd4, 0xa4, 0x5c, 0xcc, 0x5d, 0x65, 0xb6, 0x92,
   0x6c, 0x70, 0x48, 0x50, 0xfd, 0xed, 0xb9, 0xda, 0x5e, 0x15, 0x46, 0x57, 0xa7, 0x8d, 0x9d, 0x84,
   0x90, 0xd8, 0xab, 0x00, 0x8c, 0xbc, 0xd3, 0x0a, 0xf7, 0xe4, 0x58, 0x05, 0xb8, 0xb3, 0x45, 0x06,
   0xd0, 0x2c, 0x1e, 0x8f, 0xca, 0x3f, 0x0f, 0x02, 0xc1, 0xaf, 0xbd, 0x03, 0x01, 0x13, 0x8a, 0x6b,
   0x3a, 0x91, 0x11, 0x41, 0x4f, 0x67, 0xdc, 0xea, 0x97, 0xf2, 0xcf, 0xce, 0xf0, 0xb4, 0xe6, 0x73,
   0x96, 0xac, 0x74, 0x22, 0xe7, 0xad, 0x35, 0x85, 0xe2, 0xf9, 0x37, 0xe8, 0x1c, 0x75, 0xdf, 0x6e,
   0x47, 0xf1, 0x1a, 0x71, 0x1d, 0x29, 0xc5, 0x89, 0x6f, 0xb7, 0x62, 0x0e, 0xaa, 0x18, 0xbe, 0x1b,
   0xfc, 0x56, 0x3e, 0x4b, 0xc6, 0xd2, 0x79, 0x20, 0x9a, 0xdb, 0xc0, 0xfe, 0x78, 0xcd, 0x5a, 0xf4,
   0x1f, 0xdd, 0xa8, 0x33, 0x88, 0x07, 0xc7, 0x31, 0xb1, 0x12, 0x10, 0x59, 0x27, 0x80, 0xec, 0x5f,
   0x60, 0x51, 0x7f, 0xa9, 0x19, 0xb5, 0x4a, 0x0d, 0x2d, 0xe5, 0x7a, 0x9f, 0x93, 0xc9, 0x9c, 0xef,
   0xa0, 0xe0, 0x3b, 0x4d, 0xae, 0x2a, 0xf5, 0xb0, 0xc8, 0xeb, 0xbb, 0x3c, 0x83, 0x53, 0x99, 0x61,
   0x17, 0x2b, 0x04, 0x7e, 0xba, 0x77, 0xd6, 0x26, 0xe1, 0x69, 0x14, 0x63, 0x55, 0x21, 0x0c, 0x7d]"

text \<open>
  Modelled from the spec: the round constants \<^verbatim>\<open>rcon\<close> are defined in
  \<^verbatim>\<open>rdtables.cpp\<close> as well: powers of the polynomial \<open>x\<close> in GF(2^8), left-justified in
  a 32-bit word.
\<close>

definition rcon :: "word32 list" where
  "rcon = [0x01000000, 0x02000000, 0x04000000, 0x08000000,
           0x10000000, 0x20000000, 0x40000000, 0x80000000,
           0x1B000000, 0x36000000]"

text \<open>
  Modelled from the spec: \<^verbatim>\<open>GETBYTE\<close>, \<^verbatim>\<open>rotrFixed\<close> and \<^verbatim>\<open>ByteReverse\<close> come from
  \<^verbatim>\<open>misc.h\<close>, which is not among the sources. \<^verbatim>\<open>GETBYTE(x, y)\<close> extracts byte \<open>y\<close> of a
  word (byte 0 the least significant), \<^verbatim>\<open>rotrFixed\<close> is the bitwise rotation to the
  right written with two shifts, and \<^verbatim>\<open>ByteReverse\<close> reverses the four bytes of a word.
\<close>

definition GETBYTE :: "word32 \<Rightarrow> nat \<Rightarrow> nat" where
  "GETBYTE x y = unat (ucast (drop_bit (8 * y) x) :: byte)"

definition rotrFixed :: "word32 \<Rightarrow> nat \<Rightarrow> word32" where
  "rotrFixed x y = drop_bit y x OR push_bit (32 - y) x"

definition ByteReverse :: "word32 \<Rightarrow> word32" where
  "ByteReverse v =
     (let v = drop_bit 8 (v AND 0xFF00FF00) OR push_bit 8 (v AND 0x00FF00FF)
      in push_bit 16 v OR drop_bit 16 v)"

text \<open>
  The macros \<^verbatim>\<open>f2\<close>, \<^verbatim>\<open>f4\<close>, \<^verbatim>\<open>f8\<close>, \<^verbatim>\<open>f3\<close>, \<^verbatim>\<open>f9\<close>, \<^verbatim>\<open>fb\<close>, \<^verbatim>\<open>fd\<close>, \<^verbatim>\<open>fe\<close>
  of \<^verbatim>\<open>rijndael.cpp\<close>. Their argument is a \<^verbatim>\<open>byte\<close> promoted to a 32-bit integer, so
  they are functions on 32-bit words here.
\<close>

definition f2 :: "word32 \<Rightarrow> word32" where
  "f2 x = push_bit 1 x XOR (drop_bit 7 x AND 1) * 0x11b"

definition f4 :: "word32 \<Rightarrow> word32" where
  "f4 x = push_bit 2 x XOR (drop_bit 6 x AND 1) * 0x11b XOR (drop_bit 6 x AND 2) * 0x11b"

definition f8 :: "word32 \<Rightarrow> word32" where
  "f8 x = push_bit 3 x XOR (drop_bit 5 x AND 1) * 0x11b XOR (drop_bit 5 x AND 2) * 0x11b
            XOR (drop_bit 5 x AND 4) * 0x11b"

definition f3 :: "word32 \<Rightarrow> word32" where
  "f3 x = f2 x XOR x"

definition f9 :: "word32 \<Rightarrow> word32" where
  "f9 x = f8 x XOR x"

definition fb :: "word32 \<Rightarrow> word32" where
  "fb x = f8 x XOR f2 x XOR x"

definition fd :: "word32 \<Rightarrow> word32" where
  "fd x = f8 x XOR f4 x XOR x"

definition fe :: "word32 \<Rightarrow> word32" where
  "fe x = f8 x XOR f4 x XOR f2 x"

text \<open>
  \<^verbatim>\<open>Rijndael::Base::FillEncTable\<close> and \<^verbatim>\<open>FillDecTable\<close>. The inner loop over \<open>j\<close>
  stores \<open>y\<close> at \<open>i + j * 256\<close> and rotates it by one byte; the outer loop runs over the
  256 S-box entries. The tables are static arrays, zero before the fill.
\<close>

definition rotrFixed_8 :: "word32 \<Rightarrow> word32" where
  "rotrFixed_8 y = rotrFixed y 8"

definition fill_rot :: "nat \<Rightarrow> word32 list \<times> word32 \<Rightarrow> nat \<Rightarrow> word32 list \<times> word32" where
  "fill_rot i = (\<lambda>(T, y) j. (T[i + j * 256 := y], rotrFixed y 8))"

definition Te_word :: "byte \<Rightarrow> word32" where
  "Te_word s = (let x = ucast s :: word32
                in f3 x OR push_bit 8 x OR push_bit 16 x OR push_bit 24 (f2 x))"

definition Td_word :: "byte \<Rightarrow> word32" where
  "Td_word s = (let x = ucast s :: word32
                in fb x OR push_bit 8 (fd x) OR push_bit 16 (f9 x) OR push_bit 24 (fe x))"

definition FillEncTable_body :: "word32 list \<Rightarrow> nat \<Rightarrow> word32 list" where
  "FillEncTable_body T i = (let y = Te_word (Se ! i) in fst (foldl (fill_rot i) (T, y) [0..<4]))"

definition FillEncTable :: "word32 list \<Rightarrow> word32 list" where
  "FillEncTable T = foldl FillEncTable_body T [0..<256]"

definition FillDecTable_body :: "word32 list \<Rightarrow> nat \<Rightarrow> word32 list" where
  "FillDecTable_body T i = (let y = Td_word (Sd ! i) in fst (foldl (fill_rot i) (T, y) [0..<4]))"

definition FillDecTable :: "word32 list \<Rightarrow> word32 list" where
  "FillDecTable T = foldl FillDecTable_body T [0..<256]"

definition Te :: "word32 list" where
  "Te = FillEncTable (replicate 1024 0)"

definition Td :: "word32 list" where
  "Td = FillDecTable (replicate 1024 0)"

section \<open>Rijndael: key schedule\<close>

datatype CipherDir = ENCRYPTION | DECRYPTION

record rijndael =
  m_rounds :: nat
  m_key :: "word32 list"

text \<open>
  Modelled from the spec: \<^verbatim>\<open>GetUserKey(BIG_ENDIAN_ORDER, rk, keylen/4, userKey, keylen)\<close>
  of \<^verbatim>\<open>misc.h\<close> reads the user key as big-endian 32-bit words into the first
  \<^verbatim>\<open>keylen/4\<close> positions (step 1 of the key schedule in the specification).
\<close>

definition GetUserKey :: "nat \<Rightarrow> byte list \<Rightarrow> word32 list" where
  "GetUserKey outlen inp =
     map (\<lambda>i. push_bit 24 (ucast (inp ! (4 * i))) OR push_bit 16 (ucast (inp ! (4 * i + 1))) OR
               push_bit 8 (ucast (inp ! (4 * i + 2))) OR ucast (inp ! (4 * i + 3))) [0..<outlen]"

text \<open>\<^verbatim>\<open>word32(Se[n])\<close>.\<close>

definition SeW :: "nat \<Rightarrow> word32" where
  "SeW n = ucast (Se ! n)"

text \<open>
  The \<^verbatim>\<open>while (true)\<close> loop of \<^verbatim>\<open>UncheckedSetKey\<close>. \<open>rk\<close> is the offset of the pointer
  \<^verbatim>\<open>rk\<close> into \<^verbatim>\<open>m_key\<close>, \<open>rc\<close> the offset of \<^verbatim>\<open>rc\<close> into \<^verbatim>\<open>rcon\<close>. The loop leaves
  when \<^verbatim>\<open>rk + keylen/4 + 4 == m_key.end()\<close>. An access outside \<^verbatim>\<open>m_key\<close> or
  \<^verbatim>\<open>rcon\<close> is the result \<open>None\<close>.
\<close>

function expand_key :: "nat \<Rightarrow> nat \<Rightarrow> nat \<Rightarrow> word32 list \<Rightarrow> word32 list option" where
  "expand_key keylen rk rc key =
     (if keylen div 4 = 0 \<or> length key < rk + keylen div 4 + 4 \<or> length rcon \<le> rc then None
      else
        let temp = key ! (rk + keylen div 4 - 1);
            key = key[rk + keylen div 4 := key ! rk XOR
                      push_bit 24 (SeW (GETBYTE temp 2)) XOR
                      push_bit 16 (SeW (GETBYTE temp 1)) XOR
                      push_bit 8 (SeW (GETBYTE temp 0)) XOR
                      SeW (GETBYTE temp 3) XOR
                      rcon ! rc];
            key = key[rk + keylen div 4 + 1 := key ! (rk + 1) XOR key ! (rk + keylen div 4)];
            key = key[rk + keylen div 4 + 2 := key ! (rk + 2) XOR key ! (rk + keylen div 4 + 1)];
            key = key[rk + keylen div 4 + 3 := key ! (rk + 3) XOR key ! (rk + keylen div 4 + 2)]
        in if rk + keylen div 4 + 4 = length key then Some key
           else if keylen = 24 then
             (if length key \<le> rk + 11 then None
              else
                let key = key[rk + 10 := key ! (rk + 4) XOR key ! (rk + 9)];
                    key = key[rk + 11 := key ! (rk + 5) XOR key ! (rk + 10)]
                in expand_key keylen (rk + keylen div 4) (rc + 1) key)
           else if keylen = 32 then
             (if length key \<le> rk + 15 then None
              else
                let temp = key ! (rk + 11);
                    key = key[rk + 12 := key ! (rk + 4) XOR
                              push_bit 24 (SeW (GETBYTE temp 3)) XOR
                              push_bit 16 (SeW (GETBYTE temp 2)) XOR
                              push_bit 8 (SeW (GETBYTE temp 1)) XOR
                              SeW (GETBYTE temp 0)];
                    key = key[rk + 13 := key ! (rk + 5) XOR key ! (rk + 12)];
                    key = key[rk + 14 := key ! (rk + 6) XOR key ! (rk + 13)];
                    key = key[rk + 15 := key ! (rk + 7) XOR key ! (rk + 14)]
                in expand_key keylen (rk + keylen div 4) (rc + 1) key)
           else expand_key keylen (rk + keylen div 4) (rc + 1) key)"
  by pat_completeness auto
termination
  by (relation "measure (\<lambda>(keylen, rk, rc, key). length key - rk)") (auto simp: Let_def)

declare expand_key.simps [simp del]

text \<open>
  The loop that inverts the order of the round keys,
  \<^verbatim>\<open>for (i = 0, j = 4*m_rounds; i < j; i += 4, j -= 4)\<close>. It is entered with \<open>i\<close> and
  \<open>j\<close> multiples of 4, so \<open>j \<ge> 4\<close> whenever the body runs.
\<close>

definition swap_words :: "word32 list \<Rightarrow> nat \<Rightarrow> nat \<Rightarrow> word32 list" where
  "swap_words rk i j = (let temp = rk ! i; rk = rk[i := rk ! j] in rk[j := temp])"

function invert_keys :: "nat \<Rightarrow> nat \<Rightarrow> word32 list \<Rightarrow> word32 list" where
  "invert_keys i j rk =
     (if i < j then
        let rk = swap_words rk i j;
            rk = swap_words rk (i + 1) (j + 1);
            rk = swap_words rk (i + 2) (j + 2);
            rk = swap_words rk (i + 3) (j + 3)
        in invert_keys (i + 4) (j - 4) rk
      else rk)"
  by pat_completeness auto
termination
  by (relation "measure (\<lambda>(i, j, rk). j - i)") auto

declare invert_keys.simps [simp del]

text \<open>
  The inverse MixColumn transform of one word of a round key, and the loop
  \<^verbatim>\<open>for (i = 1; i < m_rounds; i++)\<close> that applies it to the four words at \<open>4 * i\<close>.
\<close>

definition InvMixColumn_word :: "word32 \<Rightarrow> word32" where
  "InvMixColumn_word w =
     Td ! (0 * 256 + unat (Se ! GETBYTE w 3)) XOR
     Td ! (1 * 256 + unat (Se ! GETBYTE w 2)) XOR
     Td ! (2 * 256 + unat (Se ! GETBYTE w 1)) XOR
     Td ! (3 * 256 + unat (Se ! GETBYTE w 0))"

definition InvMixColumn_body :: "word32 list \<Rightarrow> nat \<Rightarrow> word32 list" where
  "InvMixColumn_body key i =
     (let rk = 4 * i;
          key = key[rk := InvMixColumn_word (key ! rk)];
          key = key[rk + 1 := InvMixColumn_word (key ! (rk + 1))];
          key = key[rk + 2 := InvMixColumn_word (key ! (rk + 2))];
          key = key[rk + 3 := InvMixColumn_word (key ! (rk + 3))]
      in key)"

text \<open>
  Modelled from the spec: \<^verbatim>\<open>ConditionalByteReverse(BIG_ENDIAN_ORDER, p, p, 16)\<close> of
  \<^verbatim>\<open>misc.h\<close>; on the little-endian target it byte-reverses the four words at \<open>p\<close>.
\<close>

definition ConditionalByteReverse :: "word32 list \<Rightarrow> nat \<Rightarrow> word32 list" where
  "ConditionalByteReverse key p =
     (let key = key[p := ByteReverse (key ! p)];
          key = key[p + 1 := ByteReverse (key ! (p + 1))];
          key = key[p + 2 := ByteReverse (key ! (p + 2))];
          key = key[p + 3 := ByteReverse (key ! (p + 3))]
      in key)"

text \<open>
  \<^verbatim>\<open>Rijndael::Base::UncheckedSetKey\<close>. The key length is the length of \<open>userKey\<close>;
  a length other than 16, 24 or 32 is rejected with \<open>InvalidKeyLength\<close>. \<^verbatim>\<open>m_key.New\<close>
  allocates \<open>4 * (m_rounds + 1)\<close> words, all of which the expansion overwrites. The
  tables \<open>Te\<close> and \<open>Td\<close> are filled on first use and never change afterwards, so they
  are the constants above.
\<close>

definition UncheckedSetKey :: "CipherDir \<Rightarrow> byte list \<Rightarrow> error + rijndael" where
  "UncheckedSetKey dir userKey =
     (let keylen = length userKey in
      if keylen \<noteq> 16 \<and> keylen \<noteq> 24 \<and> keylen \<noteq> 32 then Inl InvalidKeyLength
      else
        let rounds = keylen div 4 + 6;
            key = GetUserKey (keylen div 4) userKey @ replicate (4 * (rounds + 1) - keylen div 4) 0
        in case expand_key keylen 0 0 key of
             None \<Rightarrow> Inl OutOfBounds
           | Some key \<Rightarrow>
               let key = (if dir = ENCRYPTION then key
                          else foldl InvMixColumn_body (invert_keys 0 (4 * rounds) key) [1..<rounds]);
                   key = ConditionalByteReverse key 0;
                   key = ConditionalByteReverse key (rounds * 4)
               in Inr \<lparr>m_rounds = rounds, m_key = key\<rparr>)"

section \<open>Rijndael: single-block encryption and decryption\<close>

text \<open>
  Modelled from the spec: \<^verbatim>\<open>GetCacheLineSize()\<close> of \<^verbatim>\<open>cpu.h\<close> reports the cache line
  size of the platform; 32 is its compile-time default. The preload loop reads one table
  word per cache line into \<open>u\<close>, which starts as 0 and is only ever AND-ed.
\<close>

definition GetCacheLineSize :: nat where
  "GetCacheLineSize = 32"

definition preload :: "(nat \<Rightarrow> word32) \<Rightarrow> nat \<Rightarrow> word32" where
  "preload rd n = foldl (\<lambda>u i. u AND rd i) 0 (filter (\<lambda>i. i mod GetCacheLineSize = 0) [0..<n])"

text \<open>
  \<^verbatim>\<open>((const word32 *)p)[k]\<close> on the little-endian target, and the four bytes that a
  store through such a pointer writes.
\<close>

definition load32 :: "byte list \<Rightarrow> nat \<Rightarrow> word32" where
  "load32 p k = ucast (p ! (4 * k)) OR push_bit 8 (ucast (p ! (4 * k + 1))) OR
                push_bit 16 (ucast (p ! (4 * k + 2))) OR push_bit 24 (ucast (p ! (4 * k + 3)))"

definition store32 :: "word32 \<Rightarrow> byte list" where
  "store32 w = [ucast w, ucast (drop_bit 8 w), ucast (drop_bit 16 w), ucast (drop_bit 24 w)]"

type_synonym quad = "word32 \<times> word32 \<times> word32 \<times> word32"

text \<open>
  The macro \<^verbatim>\<open>QUARTER_ROUND(t, a, b, c, d)\<close> of the encryption rounds, with the table
  access \<^verbatim>\<open>TL\<close> as a parameter; it returns the new values of \<open>a, b, c, d\<close>. On the
  little-endian target \<^verbatim>\<open>QUARTER_ROUND1(t, a, b, c, d)\<close> is
  \<^verbatim>\<open>QUARTER_ROUND(t, d, c, b, a)\<close>.
\<close>

definition QUARTER_ROUND :: "(nat \<Rightarrow> nat \<Rightarrow> word32) \<Rightarrow> word32 \<Rightarrow> quad \<Rightarrow> quad" where
  "QUARTER_ROUND TL t = (\<lambda>(a, b, c, d).
     let a = a XOR TL 3 (unat (ucast t :: byte)); t = drop_bit 8 t;
         b = b XOR TL 2 (unat (ucast t :: byte)); t = drop_bit 8 t;
         c = c XOR TL 1 (unat (ucast t :: byte)); t = drop_bit 8 t;
         d = d XOR TL 0 (unat t)
     in (a, b, c, d))"

definition QUARTER_ROUND1 :: "(nat \<Rightarrow> nat \<Rightarrow> word32) \<Rightarrow> word32 \<Rightarrow> quad \<Rightarrow> quad" where
  "QUARTER_ROUND1 TL t = (\<lambda>(a, b, c, d).
     case QUARTER_ROUND TL t (d, c, b, a) of (d, c, b, a) \<Rightarrow> (a, b, c, d))"

text \<open>
  The two definitions of \<^verbatim>\<open>TL(i, x)\<close>: \<^verbatim>\<open>rotrFixed(Te[x], (3-i)*8)\<close> in the first round
  and \<^verbatim>\<open>Te[i*256 + x]\<close> in the inner rounds.
\<close>

definition TL_first :: "nat \<Rightarrow> nat \<Rightarrow> word32" where
  "TL_first i x = rotrFixed (Te ! x) ((3 - i) * 8)"

definition TL_table :: "nat \<Rightarrow> nat \<Rightarrow> word32" where
  "TL_table i x = Te ! (i * 256 + x)"

text \<open>
  The \<^verbatim>\<open>do { ... } while (--r)\<close> loop of \<^verbatim>\<open>Rijndael::Enc::ProcessAndXorBlock\<close>; \<open>r\<close> is
  an \<^verbatim>\<open>unsigned int\<close>, \<open>rk\<close> the offset of the pointer \<^verbatim>\<open>rk\<close> into \<^verbatim>\<open>m_key\<close>.
\<close>

function Enc_rounds :: "word32 list \<Rightarrow> word32 \<Rightarrow> nat \<Rightarrow> quad \<Rightarrow> nat \<times> quad" where
  "Enc_rounds key r rk (t0, t1, t2, t3) =
    (let s0 = key ! rk; s1 = key ! (rk + 1); s2 = key ! (rk + 2); s3 = key ! (rk + 3);
         (s0, s1, s2, s3) = QUARTER_ROUND TL_table t3 (s0, s1, s2, s3);
         (s3, s0, s1, s2) = QUARTER_ROUND TL_table t2 (s3, s0, s1, s2);
         (s2, s3, s0, s1) = QUARTER_ROUND TL_table t1 (s2, s3, s0, s1);
         (s1, s2, s3, s0) = QUARTER_ROUND TL_table t0 (s1, s2, s3, s0);
         t0 = key ! (rk + 4); t1 = key ! (rk + 5); t2 = key ! (rk + 6); t3 = key ! (rk + 7);
         (t0, t1, t2, t3) = QUARTER_ROUND TL_table s3 (t0, t1, t2, t3);
         (t3, t0, t1, t2) = QUARTER_ROUND TL_table s2 (t3, t0, t1, t2);
         (t2, t3, t0, t1) = QUARTER_ROUND TL_table s1 (t2, t3, t0, t1);
         (t1, t2, t3, t0) = QUARTER_ROUND TL_table s0 (t1, t2, t3, t0);
         rk = rk + 8;
         r = r - 1
     in if r \<noteq> 0 then Enc_rounds key r rk (t0, t1, t2, t3) else (rk, (t0, t1, t2, t3)))"
  by pat_completeness auto
termination
  apply (relation "measure (\<lambda>(key, r, rk, q). unat (r - 1))")
   apply simp
  apply (simp only: in_measure prod.case)
  apply (rule measure_unat)
  apply assumption
  done

declare Enc_rounds.simps [simp del]

text \<open>
  The last round: \<^verbatim>\<open>tempBlock[a] = ((byte *)(Te+byte(t)))[1]\<close> reads byte 1 of a table
  word, which on the little-endian target is bits 8 to 15.
\<close>

definition Enc_FINAL :: "word32 \<Rightarrow> nat \<Rightarrow> nat \<Rightarrow> nat \<Rightarrow> nat \<Rightarrow> byte list \<Rightarrow> byte list" where
  "Enc_FINAL t a b c d tempBlock =
     (let tempBlock = tempBlock[a := ucast (drop_bit 8 (Te ! unat (ucast t :: byte)))]; t = drop_bit 8 t;
          tempBlock = tempBlock[b := ucast (drop_bit 8 (Te ! unat (ucast t :: byte)))]; t = drop_bit 8 t;
          tempBlock = tempBlock[c := ucast (drop_bit 8 (Te ! unat (ucast t :: byte)))]; t = drop_bit 8 t;
          tempBlock = tempBlock[d := ucast (drop_bit 8 (Te ! unat t))]
      in tempBlock)"

text \<open>
  The final XOR with the last round key and, when present, with \<^verbatim>\<open>xorBlock\<close>; the
  result is the 16 bytes written to \<^verbatim>\<open>outBlock\<close>.
\<close>

definition xor_out :: "byte list \<Rightarrow> byte list option \<Rightarrow> word32 list \<Rightarrow> nat \<Rightarrow> byte list" where
  "xor_out tempBlock xorBlock key rk =
     (case xorBlock of
        Some xb \<Rightarrow>
          concat (map (\<lambda>k. store32 (load32 tempBlock k XOR load32 xb k XOR key ! (rk + k))) [0..<4])
      | None \<Rightarrow>
          concat (map (\<lambda>k. store32 (load32 tempBlock k XOR key ! (rk + k))) [0..<4]))"

definition Enc_ProcessAndXorBlock :: "rijndael \<Rightarrow> byte list \<Rightarrow> byte list option \<Rightarrow> byte list" where
  "Enc_ProcessAndXorBlock c inBlock xorBlock =
     (let key = m_key c;
          s0 = load32 inBlock 0 XOR key ! 0;
          s1 = load32 inBlock 1 XOR key ! 1;
          s2 = load32 inBlock 2 XOR key ! 2;
          s3 = load32 inBlock 3 XOR key ! 3;
          t0 = key ! 4; t1 = key ! 5; t2 = key ! 6; t3 = key ! 7;
          rk = 8;
          u = preload (\<lambda>i. Te ! (i div 4)) 1024;
          u = u AND Te ! 255;
          s0 = s0 OR u; s1 = s1 OR u; s2 = s2 OR u; s3 = s3 OR u;
          (t0, t1, t2, t3) = QUARTER_ROUND1 TL_first s3 (t0, t1, t2, t3);
          (t3, t0, t1, t2) = QUARTER_ROUND1 TL_first s2 (t3, t0, t1, t2);
          (t2, t3, t0, t1) = QUARTER_ROUND1 TL_first s1 (t2, t3, t0, t1);
          (t1, t2, t3, t0) = QUARTER_ROUND1 TL_first s0 (t1, t2, t3, t0);
          r = word_of_nat (m_rounds c div 2) - 1;
          (rk, (t0, t1, t2, t3)) = Enc_rounds key r rk (t0, t1, t2, t3);
          tempBlock = replicate 16 0;
          tempBlock = Enc_FINAL t2 15 2 5 8 tempBlock;
          tempBlock = Enc_FINAL t1 11 14 1 4 tempBlock;
          tempBlock = Enc_FINAL t0 7 10 13 0 tempBlock;
          tempBlock = Enc_FINAL t3 3 6 9 12 tempBlock
      in xor_out tempBlock xorBlock key rk)"

text \<open>
  \<^verbatim>\<open>Rijndael::Dec::ProcessAndXorBlock\<close>: the little-endian \<^verbatim>\<open>QUARTER_ROUND\<close> of its first
  round, the one of its inner rounds, its loop and its last round.
\<close>

definition Dec_QUARTER_ROUND_first :: "word32 \<Rightarrow> quad \<Rightarrow> quad" where
  "Dec_QUARTER_ROUND_first t = (\<lambda>(a, b, c, d).
     let d = d XOR Td ! unat (ucast t :: byte); t = drop_bit 8 t;
         c = c XOR rotrFixed (Td ! unat (ucast t :: byte)) 8; t = drop_bit 8 t;
         b = b XOR rotrFixed (Td ! unat (ucast t :: byte)) 16; t = drop_bit 8 t;
         a = a XOR rotrFixed (Td ! unat t) 24
     in (a, b, c, d))"

definition Dec_QUARTER_ROUND :: "word32 \<Rightarrow> quad \<Rightarrow> quad" where
  "Dec_QUARTER_ROUND t = (\<lambda>(a, b, c, d).
     let a = a XOR Td ! (3 * 256 + unat (ucast t :: byte)); t = drop_bit 8 t;
         b = b XOR Td ! (2 * 256 + unat (ucast t :: byte)); t = drop_bit 8 t;
         c = c XOR Td ! (1 * 256 + unat (ucast t :: byte)); t = drop_bit 8 t;
         d = d XOR Td ! unat t
     in (a, b, c, d))"

function Dec_rounds :: "word32 list \<Rightarrow> word32 \<Rightarrow> nat \<Rightarrow> quad \<Rightarrow> nat \<times> quad" where
  "Dec_rounds key r rk (t0, t1, t2, t3) =
    (let s0 = key ! rk; s1 = key ! (rk + 1); s2 = key ! (rk + 2); s3 = key ! (rk + 3);
         (s2, s1, s0, s3) = Dec_QUARTER_ROUND t3 (s2, s1, s0, s3);
         (s1, s0, s3, s2) = Dec_QUARTER_ROUND t2 (s1, s0, s3, s2);
         (s0, s3, s2, s1) = Dec_QUARTER_ROUND t1 (s0, s3, s2, s1);
         (s3, s2, s1, s0) = Dec_QUARTER_ROUND t0 (s3, s2, s1, s0);
         t0 = key ! (rk + 4); t1 = key ! (rk + 5); t2 = key ! (rk + 6); t3 = key ! (rk + 7);
         (t2, t1, t0, t3) = Dec_QUARTER_ROUND s3 (t2, t1, t0, t3);
         (t1, t0, t3, t2) = Dec_QUARTER_ROUND s2 (t1, t0, t3, t2);
         (t0, t3, t2, t1) = Dec_QUARTER_ROUND s1 (t0, t3, t2, t1);
         (t3, t2, t1, t0) = Dec_QUARTER_ROUND s0 (t3, t2, t1, t0);
         rk = rk + 8;
         r = r - 1
     in if r \<noteq> 0 then Dec_rounds key r rk (t0, t1, t2, t3) else (rk, (t0, t1, t2, t3)))"
  by pat_completeness auto
termination
  apply (relation "measure (\<lambda>(key, r, rk, q). unat (r - 1))")
   apply simp
  apply (simp only: in_measure prod.case)
  apply (rule measure_unat)
  apply assumption
  done

declare Dec_rounds.simps [simp del]

definition Dec_FINAL :: "word32 \<Rightarrow> nat \<Rightarrow> nat \<Rightarrow> nat \<Rightarrow> nat \<Rightarrow> byte list \<Rightarrow> byte list" where
  "Dec_FINAL t a b c d tempBlock =
     (let tempBlock = tempBlock[a := Sd ! unat (ucast t :: byte)]; t = drop_bit 8 t;
          tempBlock = tempBlock[b := Sd ! unat (ucast t :: byte)]; t = drop_bit 8 t;
          tempBlock = tempBlock[c := Sd ! unat (ucast t :: byte)]; t = drop_bit 8 t;
          tempBlock = tempBlock[d := Sd ! unat t]
      in tempBlock)"

definition Dec_ProcessAndXorBlock :: "rijndael \<Rightarrow> byte list \<Rightarrow> byte list option \<Rightarrow> byte list" where
  "Dec_ProcessAndXorBlock c inBlock xorBlock =
     (let key = m_key c;
          s0 = load32 inBlock 0 XOR key ! 0;
          s1 = load32 inBlock 1 XOR key ! 1;
          s2 = load32 inBlock 2 XOR key ! 2;
          s3 = load32 inBlock 3 XOR key ! 3;
          t0 = key ! 4; t1 = key ! 5; t2 = key ! 6; t3 = key ! 7;
          rk = 8;
          u = preload (\<lambda>i. Td ! (i div 4)) 1024;
          u = u AND Td ! 255;
          s0 = s0 OR u; s1 = s1 OR u; s2 = s2 OR u; s3 = s3 OR u;
          (t2, t1, t0, t3) = Dec_QUARTER_ROUND_first s3 (t2, t1, t0, t3);
          (t1, t0, t3, t2) = Dec_QUARTER_ROUND_first s2 (t1, t0, t3, t2);
          (t0, t3, t2, t1) = Dec_QUARTER_ROUND_first s1 (t0, t3, t2, t1);
          (t3, t2, t1, t0) = Dec_QUARTER_ROUND_first s0 (t3, t2, t1, t0);
          r = word_of_nat (m_rounds c div 2) - 1;
          (rk, (t0, t1, t2, t3)) = Dec_rounds key r rk (t0, t1, t2, t3);
          u = preload (\<lambda>i. load32 Sd (i div 4)) 256;
          u = u AND load32 Sd 63;
          t0 = t0 OR u; t1 = t1 OR u; t2 = t2 OR u; t3 = t3 OR u;
          tempBlock = replicate 16 0;
          tempBlock = Dec_FINAL t2 7 2 13 8 tempBlock;
          tempBlock = Dec_FINAL t1 3 14 9 4 tempBlock;
          tempBlock = Dec_FINAL t0 15 10 5 0 tempBlock;
          tempBlock = Dec_FINAL t3 11 6 1 12 tempBlock
      in xor_out tempBlock xorBlock key rk)"

section \<open>Base-N codec: parameters and state\<close>

text \<open>
  Modelled from the spec: \<^verbatim>\<open>NameValuePairs\<close> is declared in \<^verbatim>\<open>cryptlib.h\<close>, which is not
  among the sources. It is a bag of named configuration values; the record has one
  optional field for each name that \<^verbatim>\<open>basecode.cpp\<close> asks for. \<^verbatim>\<open>GetRequiredParameter\<close>
  and \<^verbatim>\<open>GetRequiredIntParameter\<close> fail with \<open>InvalidArgument\<close> when the name is absent,
  \<^verbatim>\<open>GetValue\<close> reports whether the name is present, and \<^verbatim>\<open>GetValueWithDefault\<close> and
  \<^verbatim>\<open>GetIntValueWithDefault\<close> return the default when it is absent.
\<close>

record NameValuePairs =
  EncodingLookupArray :: "byte list option"
  DecodingLookupArray :: "(byte \<Rightarrow> int) option"
  Log2Base :: "int option"
  PaddingByte :: "byte option"
  Pad :: "bool option"
  GroupSize :: "int option"
  Separator :: "byte list option"
  Terminator :: "byte list option"

definition missing_parameter :: "string \<Rightarrow> string \<Rightarrow> error" where
  "missing_parameter className name =
     InvalidArgument (className @ '': missing required parameter '' @ name)"

text \<open>
  The members shared by \<^verbatim>\<open>BaseN_Encoder\<close> and \<^verbatim>\<open>BaseN_Decoder\<close>, and the two classes.
  The counters are \<^verbatim>\<open>int\<close> members that never go negative: \<^verbatim>\<open>IsolatedInitialize\<close>
  rejects a \<^verbatim>\<open>Log2Base\<close> outside 1..7 before it stores anything. \<^verbatim>\<open>m_padding\<close> keeps
  its sentinel \<open>-1\<close>. The decoder's \<^verbatim>\<open>m_lookup\<close> points to 256 \<^verbatim>\<open>int\<close>s indexed by a byte.
\<close>

record BaseN_state =
  m_bitsPerChar :: nat
  m_outputBlockSize :: nat
  m_bytePos :: nat
  m_bitPos :: nat
  m_outBuf :: "byte list"

record BaseN_Encoder = BaseN_state +
  m_alphabet :: "byte list"
  m_padding :: int

record BaseN_Decoder = BaseN_state +
  m_lookup :: "byte \<Rightarrow> int"

text \<open>
  The loops \<^verbatim>\<open>i = 8; while (i%m_bitsPerChar != 0) i += 8;\<close> of the encoder and
  \<^verbatim>\<open>i = m_bitsPerChar; while (i%8 != 0) i += m_bitsPerChar;\<close> of the decoder: start at
  \<open>i\<close>, add \<open>step\<close> until \<open>i\<close> is a multiple of \<open>m\<close>. Not returning is \<open>None\<close>.
\<close>

partial_function (option) block_size_loop :: "nat \<Rightarrow> nat \<Rightarrow> nat \<Rightarrow> nat option" where
  "block_size_loop i step m = (if i mod m \<noteq> 0 then block_size_loop (i + step) step m else Some i)"

declare block_size_loop.simps [code]

text \<open>\<^verbatim>\<open>memset(m_outBuf, 0, m_outputBlockSize)\<close>.\<close>

definition clear_outBuf :: "'a BaseN_state_scheme \<Rightarrow> error + 'a BaseN_state_scheme" where
  "clear_outBuf st =
     (if length (m_outBuf st) < m_outputBlockSize st then Inl OutOfBounds
      else Inr (st\<lparr>m_outBuf := replicate (m_outputBlockSize st) 0 @
                                  drop (m_outputBlockSize st) (m_outBuf st)\<rparr>))"

section \<open>Base-N encoder\<close>

text \<open>
  \<^verbatim>\<open>BaseN_Encoder::IsolatedInitialize\<close>. \<^verbatim>\<open>m_outBuf.New\<close> leaves the contents of the
  buffer unspecified; \<^verbatim>\<open>Put2\<close> clears it before its first use, and the model starts it
  with zeros.
\<close>

definition BaseN_Encoder_IsolatedInitialize :: "NameValuePairs \<Rightarrow> error + BaseN_Encoder" where
  "BaseN_Encoder_IsolatedInitialize parameters =
     (case EncodingLookupArray parameters of
        None \<Rightarrow> Inl (missing_parameter ''BaseN_Encoder'' ''EncodingLookupArray'')
      | Some alphabet \<Rightarrow>
          (case Log2Base parameters of
             None \<Rightarrow> Inl (missing_parameter ''BaseN_Encoder'' ''Log2Base'')
           | Some bitsPerChar \<Rightarrow>
               if bitsPerChar \<le> 0 \<or> bitsPerChar \<ge> 8
               then Inl (InvalidArgument
                           ''BaseN_Encoder: Log2Base must be between 1 and 7 inclusive'')
               else
                 let padding =
                       (case PaddingByte parameters of
                          Some padding \<Rightarrow>
                            if (case Pad parameters of Some pad \<Rightarrow> pad | None \<Rightarrow> True)
                            then uint padding else - 1
                        | None \<Rightarrow> - 1)
                 in case block_size_loop 8 8 (nat bitsPerChar) of
                      None \<Rightarrow> Inl Diverges
                    | Some i \<Rightarrow>
                        Inr \<lparr>m_bitsPerChar = nat bitsPerChar,
                             m_outputBlockSize = i div nat bitsPerChar,
                             m_bytePos = 0, m_bitPos = 0,
                             m_outBuf = replicate (i div nat bitsPerChar) 0,
                             m_alphabet = alphabet, m_padding = padding\<rparr>))"

text \<open>
  The \<^verbatim>\<open>while (true)\<close> loop of \<^verbatim>\<open>BaseN_Encoder::Put2\<close> that distributes the bits of one
  input byte. \<open>b\<close> is the \<^verbatim>\<open>unsigned int\<close> holding the remaining source bits at the top
  of its low byte. A failed \<^verbatim>\<open>assert\<close> is \<open>AssertionFailed\<close>, an access outside
  \<^verbatim>\<open>m_outBuf\<close> is \<open>OutOfBounds\<close>.
\<close>

function enc_bits :: "BaseN_Encoder \<Rightarrow> word32 \<Rightarrow> nat \<Rightarrow> error + BaseN_Encoder" where
  "enc_bits st b bitsLeftInSource =
     (if \<not> m_bitPos st < m_bitsPerChar st then Inl AssertionFailed
      else if \<not> m_bytePos st < length (m_outBuf st) then Inl OutOfBounds
      else
        let bitsLeftInTarget = m_bitsPerChar st - m_bitPos st;
            st = st\<lparr>m_outBuf := (m_outBuf st)[m_bytePos st :=
                        m_outBuf st ! m_bytePos st OR ucast (drop_bit (8 - bitsLeftInTarget) b)]\<rparr>
        in if bitsLeftInSource \<ge> bitsLeftInTarget then
             let st = st\<lparr>m_bitPos := 0, m_bytePos := m_bytePos st + 1\<rparr>;
                 bitsLeftInSource = bitsLeftInSource - bitsLeftInTarget
             in if bitsLeftInSource = 0 then Inr st
                else enc_bits st (push_bit bitsLeftInTarget b AND 0xff) bitsLeftInSource
           else Inr (st\<lparr>m_bitPos := m_bitPos st + bitsLeftInSource\<rparr>))"
  by pat_completeness auto
termination
  by (relation "measure (\<lambda>(st, b, bitsLeftInSource). bitsLeftInSource)") auto

declare enc_bits.simps [simp del]

text \<open>
  The loops \<^verbatim>\<open>for (i=0; i<m_bytePos; i++) m_outBuf[i] = m_alphabet[m_outBuf[i]]\<close>, over
  the list of indices; \<open>chk\<close> tells whether the loop carries the
  \<^verbatim>\<open>assert(m_outBuf[i] < (1 << m_bitsPerChar))\<close>. A read outside the alphabet is
  \<open>OutOfBounds\<close>.
\<close>

fun enc_translate :: "bool \<Rightarrow> BaseN_Encoder \<Rightarrow> nat list \<Rightarrow> error + BaseN_Encoder" where
  "enc_translate chk st [] = Inr st"
| "enc_translate chk st (i # is) =
     (if \<not> i < length (m_outBuf st) then Inl OutOfBounds
      else if chk \<and> \<not> unat (m_outBuf st ! i) < 2 ^ m_bitsPerChar st then Inl AssertionFailed
      else if \<not> unat (m_outBuf st ! i) < length (m_alphabet st) then Inl OutOfBounds
      else enc_translate chk
             (st\<lparr>m_outBuf := (m_outBuf st)[i := m_alphabet st ! unat (m_outBuf st ! i)]\<rparr>) is)"

text \<open>
  One iteration of \<^verbatim>\<open>while (m_inputPosition < length)\<close>: the byte \<open>x\<close> is consumed, and
  a completed block is translated and sent downstream. The second component of the
  result is what \<^verbatim>\<open>FILTER_OUTPUT\<close> hands to the attached transformation, which is taken
  to accept everything it is given.
\<close>

definition enc_byte :: "BaseN_Encoder \<Rightarrow> byte \<Rightarrow> error + (BaseN_Encoder \<times> byte list)" where
  "enc_byte st x =
     (case (if m_bytePos st = 0 then clear_outBuf st else Inr st) of
        Inl e \<Rightarrow> Inl e
      | Inr st \<Rightarrow>
          (case enc_bits st (ucast x) 8 of
             Inl e \<Rightarrow> Inl e
           | Inr st \<Rightarrow>
               if \<not> m_bytePos st \<le> m_outputBlockSize st then Inl AssertionFailed
               else if m_bytePos st = m_outputBlockSize st then
                 (case enc_translate True st [0..<m_bytePos st] of
                    Inl e \<Rightarrow> Inl e
                  | Inr st \<Rightarrow>
                      if length (m_outBuf st) < m_outputBlockSize st then Inl OutOfBounds
                      else Inr (st\<lparr>m_bytePos := 0, m_bitPos := 0\<rparr>,
                                take (m_outputBlockSize st) (m_outBuf st)))
               else Inr (st, [])))"

fun enc_loop :: "BaseN_Encoder \<Rightarrow> byte list \<Rightarrow> error + (BaseN_Encoder \<times> byte list)" where
  "enc_loop st [] = Inr (st, [])"
| "enc_loop st (x # xs) =
     (case enc_byte st x of
        Inl e \<Rightarrow> Inl e
      | Inr (st, out) \<Rightarrow>
          (case enc_loop st xs of
             Inl e \<Rightarrow> Inl e
           | Inr (st, out') \<Rightarrow> Inr (st, out @ out')))"

text \<open>The \<^verbatim>\<open>if (messageEnd)\<close> part of \<^verbatim>\<open>BaseN_Encoder::Put2\<close>.\<close>

definition enc_message_end :: "BaseN_Encoder \<Rightarrow> error + (BaseN_Encoder \<times> byte list)" where
  "enc_message_end st =
     (let st = (if m_bitPos st > 0 then st\<lparr>m_bytePos := m_bytePos st + 1\<rparr> else st)
      in case enc_translate False st [0..<m_bytePos st] of
           Inl e \<Rightarrow> Inl e
         | Inr st \<Rightarrow>
             (case (if m_padding st \<noteq> - 1 \<and> m_bytePos st > 0 then
                      if m_outputBlockSize st < m_bytePos st \<or>
                         length (m_outBuf st) < m_outputBlockSize st
                      then Inl OutOfBounds
                      else Inr (st\<lparr>m_outBuf :=
                                       take (m_bytePos st) (m_outBuf st) @
                                       replicate (m_outputBlockSize st - m_bytePos st)
                                         (word_of_int (m_padding st)) @
                                       drop (m_outputBlockSize st) (m_outBuf st),
                                     m_bytePos := m_outputBlockSize st\<rparr>)
                    else Inr st) of
                Inl e \<Rightarrow> Inl e
              | Inr st \<Rightarrow>
                  if length (m_outBuf st) < m_bytePos st then Inl OutOfBounds
                  else Inr (st\<lparr>m_bytePos := 0, m_bitPos := 0\<rparr>,
                            take (m_bytePos st) (m_outBuf st))))"

text \<open>
  \<^verbatim>\<open>BaseN_Encoder::Put2(begin, length, messageEnd, blocking)\<close>: the input is the list
  \<open>begin\<close>, the result the new state and the bytes sent downstream, in order.
\<close>

definition BaseN_Encoder_Put2 ::
  "BaseN_Encoder \<Rightarrow> byte list \<Rightarrow> bool \<Rightarrow> error + (BaseN_Encoder \<times> byte list)" where
  "BaseN_Encoder_Put2 st begin messageEnd =
     (case enc_loop st begin of
        Inl e \<Rightarrow> Inl e
      | Inr (st, out) \<Rightarrow>
          if messageEnd then
            (case enc_message_end st of
               Inl e \<Rightarrow> Inl e
             | Inr (st, out') \<Rightarrow> Inr (st, out @ out'))
          else Inr (st, out))"

text \<open>A sequence of \<^verbatim>\<open>Put2\<close> calls on one encoder, each with its \<^verbatim>\<open>messageEnd\<close> flag.\<close>

fun BaseN_Encoder_Puts ::
  "BaseN_Encoder \<Rightarrow> (byte list \<times> bool) list \<Rightarrow> error + (BaseN_Encoder \<times> byte list)" where
  "BaseN_Encoder_Puts st [] = Inr (st, [])"
| "BaseN_Encoder_Puts st ((begin, messageEnd) # calls) =
     (case BaseN_Encoder_Put2 st begin messageEnd of
        Inl e \<Rightarrow> Inl e
      | Inr (st, out) \<Rightarrow>
          (case BaseN_Encoder_Puts st calls of
             Inl e \<Rightarrow> Inl e
           | Inr (st, out') \<Rightarrow> Inr (st, out @ out')))"

section \<open>Base-N decoder\<close>

text \<open>\<^verbatim>\<open>BaseN_Decoder::IsolatedInitialize\<close>.\<close>

definition BaseN_Decoder_IsolatedInitialize :: "NameValuePairs \<Rightarrow> error + BaseN_Decoder" where
  "BaseN_Decoder_IsolatedInitialize parameters =
     (case DecodingLookupArray parameters of
        None \<Rightarrow> Inl (missing_parameter ''BaseN_Decoder'' ''DecodingLookupArray'')
      | Some lookup \<Rightarrow>
          (case Log2Base parameters of
             None \<Rightarrow> Inl (missing_parameter ''BaseN_Decoder'' ''Log2Base'')
           | Some bitsPerChar \<Rightarrow>
               if bitsPerChar \<le> 0 \<or> bitsPerChar \<ge> 8
               then Inl (InvalidArgument
                           ''BaseN_Decoder: Log2Base must be between 1 and 7 inclusive'')
               else
                 case block_size_loop (nat bitsPerChar) (nat bitsPerChar) 8 of
                   None \<Rightarrow> Inl Diverges
                 | Some i \<Rightarrow>
                     Inr \<lparr>m_bitsPerChar = nat bitsPerChar,
                          m_outputBlockSize = i div 8,
                          m_bytePos = 0, m_bitPos = 0,
                          m_outBuf = replicate (i div 8) 0,
                          m_lookup = lookup\<rparr>))"

text \<open>The loop \<^verbatim>\<open>while (m_bitPos >= 8) { m_bitPos -= 8; ++m_bytePos; }\<close>.\<close>

function dec_carry :: "BaseN_Decoder \<Rightarrow> BaseN_Decoder" where
  "dec_carry st =
     (if m_bitPos st \<ge> 8
      then dec_carry (st\<lparr>m_bitPos := m_bitPos st - 8, m_bytePos := m_bytePos st + 1\<rparr>)
      else st)"
  by pat_completeness auto
termination
  by (relation "measure m_bitPos") auto

declare dec_carry.simps [simp del]

text \<open>
  One iteration of the loop of \<^verbatim>\<open>BaseN_Decoder::Put2\<close> for the input character \<open>c\<close>.
  \<open>value\<close> is the \<^verbatim>\<open>unsigned int\<close> that the \<^verbatim>\<open>int\<close> entry of \<^verbatim>\<open>m_lookup\<close> converts to;
  an entry of 256 or more, or a negative one, skips the character.
\<close>

definition dec_char :: "BaseN_Decoder \<Rightarrow> byte \<Rightarrow> error + (BaseN_Decoder \<times> byte list)" where
  "dec_char st c =
     (let value = (word_of_int (m_lookup st c) :: word32)
      in if value \<ge> 256 then Inr (st, [])
         else
           case (if m_bytePos st = 0 \<and> m_bitPos st = 0 then clear_outBuf st else Inr st) of
             Inl e \<Rightarrow> Inl e
           | Inr st \<Rightarrow>
               let newBitPos = m_bitPos st + m_bitsPerChar st
               in case
                    (if newBitPos \<le> 8 then
                       if \<not> m_bytePos st < length (m_outBuf st) then Inl OutOfBounds
                       else Inr (st\<lparr>m_outBuf := (m_outBuf st)[m_bytePos st :=
                                   m_outBuf st ! m_bytePos st OR
                                   ucast (push_bit (8 - newBitPos) value)]\<rparr>)
                     else
                       if \<not> m_bytePos st + 1 < length (m_outBuf st) then Inl OutOfBounds
                       else
                         let st = st\<lparr>m_outBuf := (m_outBuf st)[m_bytePos st :=
                                     m_outBuf st ! m_bytePos st OR
                                     ucast (drop_bit (newBitPos - 8) value)]\<rparr>
                         in Inr (st\<lparr>m_outBuf := (m_outBuf st)[m_bytePos st + 1 :=
                                     m_outBuf st ! (m_bytePos st + 1) OR
                                     ucast (push_bit (16 - newBitPos) value)]\<rparr>)) of
                    Inl e \<Rightarrow> Inl e
                  | Inr st \<Rightarrow>
                      let st = dec_carry (st\<lparr>m_bitPos := newBitPos\<rparr>)
                      in if m_bytePos st = m_outputBlockSize st then
                           if length (m_outBuf st) < m_outputBlockSize st then Inl OutOfBounds
                           else Inr (st\<lparr>m_bytePos := 0, m_bitPos := 0\<rparr>,
                                     take (m_outputBlockSize st) (m_outBuf st))
                         else Inr (st, []))"

fun dec_loop :: "BaseN_Decoder \<Rightarrow> byte list \<Rightarrow> error + (BaseN_Decoder \<times> byte list)" where
  "dec_loop st [] = Inr (st, [])"
| "dec_loop st (c # cs) =
     (case dec_char st c of
        Inl e \<Rightarrow> Inl e
      | Inr (st, out) \<Rightarrow>
          (case dec_loop st cs of
             Inl e \<Rightarrow> Inl e
           | Inr (st, out') \<Rightarrow> Inr (st, out @ out')))"

definition dec_message_end :: "BaseN_Decoder \<Rightarrow> error + (BaseN_Decoder \<times> byte list)" where
  "dec_message_end st =
     (if length (m_outBuf st) < m_bytePos st then Inl OutOfBounds
      else Inr (st\<lparr>m_bytePos := 0, m_bitPos := 0\<rparr>, take (m_bytePos st) (m_outBuf st)))"

definition BaseN_Decoder_Put2 ::
  "BaseN_Decoder \<Rightarrow> byte list \<Rightarrow> bool \<Rightarrow> error + (BaseN_Decoder \<times> byte list)" where
  "BaseN_Decoder_Put2 st begin messageEnd =
     (case dec_loop st begin of
        Inl e \<Rightarrow> Inl e
      | Inr (st, out) \<Rightarrow>
          if messageEnd then
            (case dec_message_end st of
               Inl e \<Rightarrow> Inl e
             | Inr (st, out') \<Rightarrow> Inr (st, out @ out'))
          else Inr (st, out))"

text \<open>
  \<^verbatim>\<open>isalpha\<close>, \<^verbatim>\<open>toupper\<close> and \<^verbatim>\<open>tolower\<close> of the C library, in the C locale, on bytes.
\<close>

definition isalpha :: "byte \<Rightarrow> bool" where
  "isalpha c = ((0x41 \<le> c \<and> c \<le> 0x5A) \<or> (0x61 \<le> c \<and> c \<le> 0x7A))"

definition toupper :: "byte \<Rightarrow> byte" where
  "toupper c = (if 0x61 \<le> c \<and> c \<le> 0x7A then c - 0x20 else c)"

definition tolower :: "byte \<Rightarrow> byte" where
  "tolower c = (if 0x41 \<le> c \<and> c \<le> 0x5A then c + 0x20 else c)"

text \<open>
  \<^verbatim>\<open>BaseN_Decoder::InitializeDecodingLookupArray\<close>: \<^verbatim>\<open>std::fill\<close> sets every entry
  to \<open>-1\<close>, then the loop over \<open>i < base\<close> registers the characters of the alphabet.
  Each \<^verbatim>\<open>assert\<close> is a check that fails with \<open>AssertionFailed\<close>.
\<close>

fun lookup_loop ::
  "byte list \<Rightarrow> bool \<Rightarrow> nat list \<Rightarrow> (byte \<Rightarrow> int) \<Rightarrow> error + (byte \<Rightarrow> int)" where
  "lookup_loop alphabet caseInsensitive [] lookup = Inr lookup"
| "lookup_loop alphabet caseInsensitive (i # is) lookup =
     (if \<not> i < length alphabet then Inl OutOfBounds
      else if caseInsensitive \<and> isalpha (alphabet ! i) then
        if lookup (toupper (alphabet ! i)) \<noteq> - 1 then Inl AssertionFailed
        else
          let lookup = lookup(toupper (alphabet ! i) := int i)
          in if lookup (tolower (alphabet ! i)) \<noteq> - 1 then Inl AssertionFailed
             else lookup_loop alphabet caseInsensitive is
                    (lookup(tolower (alphabet ! i) := int i))
      else
        if lookup (alphabet ! i) \<noteq> - 1 then Inl AssertionFailed
        else lookup_loop alphabet caseInsensitive is (lookup(alphabet ! i := int i)))"

definition InitializeDecodingLookupArray ::
  "byte list \<Rightarrow> nat \<Rightarrow> bool \<Rightarrow> error + (byte \<Rightarrow> int)" where
  "InitializeDecodingLookupArray alphabet base caseInsensitive =
     lookup_loop alphabet caseInsensitive [0..<base] (\<lambda>c. - 1)"

section \<open>Grouper\<close>

text \<open>
  \<^verbatim>\<open>m_groupSize\<close> and \<^verbatim>\<open>m_counter\<close> are unsigned 32-bit members; the \<^verbatim>\<open>int\<close> parameter
  \<^verbatim>\<open>GroupSize\<close> converts to unsigned on assignment.
\<close>

record Grouper =
  m_groupSize :: word32
  m_counter :: word32
  m_separator :: "byte list"
  m_terminator :: "byte list"

definition Grouper_IsolatedInitialize :: "NameValuePairs \<Rightarrow> error + Grouper" where
  "Grouper_IsolatedInitialize parameters =
     (let groupSize = (word_of_int (case GroupSize parameters of Some g \<Rightarrow> g | None \<Rightarrow> 0) :: word32)
      in case (if groupSize \<noteq> 0
               then (case Separator parameters of
                       None \<Rightarrow> Inl (missing_parameter ''Grouper'' ''Separator'')
                     | Some separator \<Rightarrow> Inr separator)
               else Inr []) of
           Inl e \<Rightarrow> Inl e
         | Inr separator \<Rightarrow>
             Inr \<lparr>m_groupSize = groupSize, m_counter = 0, m_separator = separator,
                  m_terminator = (case Terminator parameters of Some t \<Rightarrow> t | None \<Rightarrow> [])\<rparr>)"

text \<open>
  The loop of \<^verbatim>\<open>Grouper::Put2\<close>, entered only when \<^verbatim>\<open>m_groupSize\<close> is not zero; the
  test of \<^verbatim>\<open>m_groupSize\<close> is part of the loop condition here, as the group size does
  not change. \<open>input\<close> is the part of \<^verbatim>\<open>begin\<close> from \<^verbatim>\<open>m_inputPosition\<close> on, and
  \<^verbatim>\<open>len = STDMIN(length-m_inputPosition, m_groupSize-m_counter)\<close> with the subtraction of
  the counters in unsigned 32-bit arithmetic.
\<close>

function Grouper_loop :: "Grouper \<Rightarrow> byte list \<Rightarrow> Grouper \<times> byte list" where
  "Grouper_loop st input =
     (if m_groupSize st \<noteq> 0 \<and> input \<noteq> [] then
        let (st, out) = (if m_counter st = m_groupSize st
                         then (st\<lparr>m_counter := 0\<rparr>, m_separator st) else (st, []));
            len = min (length input) (unat (m_groupSize st - m_counter st));
            (st', out') = Grouper_loop (st\<lparr>m_counter := m_counter st + of_nat len\<rparr>)
                            (drop len input)
        in (st', out @ take len input @ out')
      else (st, []))"
  by pat_completeness auto
termination
proof (relation "measure (\<lambda>(st, input). length input)", goal_cases)
  case 1
  then show ?case by simp
next
  case (2 st input x xa y xb)
  then have "unat (m_groupSize xa - m_counter xa) \<noteq> 0"
    by (auto simp: unat_eq_0 split: if_splits)
  with 2 show ?case by (cases input) (auto simp: min_def)
qed

declare Grouper_loop.simps [simp del]

definition Grouper_Put2 :: "Grouper \<Rightarrow> byte list \<Rightarrow> bool \<Rightarrow> Grouper \<times> byte list" where
  "Grouper_Put2 st begin messageEnd =
     (let (st, out) = (if m_groupSize st \<noteq> 0 then Grouper_loop st begin else (st, begin))
      in if messageEnd then (st\<lparr>m_counter := 0\<rparr>, out @ m_terminator st) else (st, out))"

section \<open>Predicates and reference functions used in the statements\<close>

text \<open>
  The parameter bag with no name set, from which the examples build theirs.
\<close>

definition no_parameters :: NameValuePairs where
  "no_parameters =
     \<lparr>EncodingLookupArray = None, DecodingLookupArray = None, Log2Base = None,
      PaddingByte = None, Pad = None, GroupSize = None, Separator = None, Terminator = None\<rparr>"

text \<open>
  What holds of an encoder between two input bytes: the members set by
  \<^verbatim>\<open>IsolatedInitialize\<close> are consistent, the cursor is inside the block at a multiple of
  eight bits, and once a block is begun every buffered symbol is below \<open>2 ^ m_bitsPerChar\<close>.
\<close>

definition enc_wf :: "BaseN_Encoder \<Rightarrow> bool" where
  "enc_wf st \<longleftrightarrow>
     1 \<le> m_bitsPerChar st \<and> m_bitsPerChar st \<le> 7 \<and>
     (m_outputBlockSize st * m_bitsPerChar st) mod 8 = 0 \<and>
     length (m_outBuf st) = m_outputBlockSize st \<and>
     2 ^ m_bitsPerChar st \<le> length (m_alphabet st)"

definition syms_ok :: "BaseN_Encoder \<Rightarrow> bool" where
  "syms_ok st \<longleftrightarrow> list_all (\<lambda>v. take_bit (m_bitsPerChar st) v = v) (m_outBuf st)"

definition enc_inv :: "BaseN_Encoder \<Rightarrow> bool" where
  "enc_inv st \<longleftrightarrow>
     enc_wf st \<and> m_bitPos st < m_bitsPerChar st \<and>
     (m_bytePos st * m_bitsPerChar st + m_bitPos st) mod 8 = 0 \<and>
     m_bytePos st * m_bitsPerChar st + m_bitPos st < m_outputBlockSize st * m_bitsPerChar st \<and>
     (m_bytePos st = 0 \<or> syms_ok st)"

text \<open>The members of an encoder that \<^verbatim>\<open>Put2\<close> never writes.\<close>

definition enc_same :: "BaseN_Encoder \<Rightarrow> BaseN_Encoder \<Rightarrow> bool" where
  "enc_same st st' \<longleftrightarrow>
     m_bitsPerChar st' = m_bitsPerChar st \<and> m_outputBlockSize st' = m_outputBlockSize st \<and>
     m_alphabet st' = m_alphabet st \<and> m_padding st' = m_padding st"

text \<open>The translation of a buffered symbol through the alphabet.\<close>

definition enc_char :: "BaseN_Encoder \<Rightarrow> byte \<Rightarrow> byte" where
  "enc_char st v = m_alphabet st ! unat v"

text \<open>
  The entries of \<^verbatim>\<open>m_lookup\<close> that make the decoder skip a character: the 32-bit
  \<^verbatim>\<open>int\<close> is negative (the sentinel \<open>-1\<close> among them) or at least 256.
\<close>

definition dec_ignores :: "BaseN_Decoder \<Rightarrow> byte \<Rightarrow> bool" where
  "dec_ignores st c \<longleftrightarrow>
     (- (2 ^ 31) \<le> m_lookup st c \<and> m_lookup st c < 0) \<or>
     (256 \<le> m_lookup st c \<and> m_lookup st c < 2 ^ 31)"

text \<open>
  The grouping that the specification describes: the input cut into runs of \<open>n\<close> bytes
  (the last one possibly shorter), and the runs joined with one separator between any
  two of them.
\<close>

function chunks :: "nat \<Rightarrow> 'a list \<Rightarrow> 'a list list" where
  "chunks n xs = (if n = 0 \<or> xs = [] then [] else take n xs # chunks n (drop n xs))"
  by pat_completeness auto
termination
  by (relation "measure (\<lambda>(n, xs). length xs)") auto

declare chunks.simps [simp del]

fun join :: "'a list \<Rightarrow> 'a list list \<Rightarrow> 'a list" where
  "join sep [] = []"
| "join sep [x] = x"
| "join sep (x # y # ys) = x @ sep @ join sep (y # ys)"

text \<open>Bytes of an ASCII string, for the examples.\<close>

definition ascii :: "string \<Rightarrow> byte list" where
  "ascii s = map (\<lambda>c. of_nat (of_char c)) s"

definition base64_alphabet :: "byte list" where
  "base64_alphabet = ascii ''ABCDEFGHIJKLMNOPQRSTUVWXYZabcdefghijklmnopqrstuvwxyz0123456789+/''"

definition base64_parameters :: NameValuePairs where
  "base64_parameters =
     no_parameters\<lparr>EncodingLookupArray := Some base64_alphabet, Log2Base := Some 6,
                    PaddingByte := Some 0x3D\<rparr>"

text \<open>
  The number of symbols that an end of message finds in the buffer (a begun symbol
  counts), and the characters that the end of message sends downstream from them: the
  translated symbols, followed by padding up to the block size when padding is enabled
  and there is at least one symbol.
\<close>

definition enc_pending :: "BaseN_Encoder \<Rightarrow> nat" where
  "enc_pending st = m_bytePos st + (if m_bitPos st > 0 then 1 else 0)"

definition enc_tail :: "BaseN_Encoder \<Rightarrow> byte list" where
  "enc_tail st =
     map (enc_char st) (take (enc_pending st) (m_outBuf st)) @
     (if m_padding st \<noteq> - 1 \<and> 0 < enc_pending st
      then replicate (m_outputBlockSize st - enc_pending st) (word_of_int (m_padding st))
      else [])"

text \<open>Parameter bags and states of the examples.\<close>

definition base64_encoder :: BaseN_Encoder where
  "base64_encoder =
     \<lparr>m_bitsPerChar = 6, m_outputBlockSize = 4, m_bytePos = 0, m_bitPos = 0,
      m_outBuf = [0, 0, 0, 0], m_alphabet = base64_alphabet, m_padding = 61\<rparr>"

definition binary_decoder :: BaseN_Decoder where
  "binary_decoder =
     \<lparr>m_bitsPerChar = 1, m_outputBlockSize = 1, m_bytePos = 0, m_bitPos = 0,
      m_outBuf = [0], m_lookup = (\<lambda>c. - 1)(0x30 := 0, 0x31 := 1)\<rparr>"

definition example_grouper :: Grouper where
  "example_grouper =
     \<lparr>m_groupSize = 4, m_counter = 0, m_separator = ascii '' '', m_terminator = [0x0A]\<rparr>"


text \<open>
  The two halves of one iteration of the loop of \<^verbatim>\<open>Grouper::Put2\<close>: \<open>Grouper_sep\<close> is the
  separator step (\<^verbatim>\<open>if (m_counter == m_groupSize)\<close>), and \<open>Grouper_room\<close> is the room
  \<^verbatim>\<open>m_groupSize-m_counter\<close> that the current group has after it.
\<close>

definition Grouper_sep :: "Grouper \<Rightarrow> Grouper \<times> byte list" where
  "Grouper_sep st =
     (if m_counter st = m_groupSize st then (st\<lparr>m_counter := 0\<rparr>, m_separator st) else (st, []))"

definition Grouper_room :: "Grouper \<Rightarrow> nat" where
  "Grouper_room st = unat (m_groupSize (fst (Grouper_sep st)) - m_counter (fst (Grouper_sep st)))"

section \<open>Auxiliary facts about lists and numerals\<close>

lemma list_update_numeral: "(x # xs)[numeral n := y] = x # xs[pred_numeral n := y]"
  by (simp add: numeral_eq_Suc)

lemma replicate_numeral: "replicate (numeral n) x = x # replicate (pred_numeral n) x"
  by (simp add: numeral_eq_Suc)

lemma upt_numeral: "[m..<numeral n] = (if m < numeral n then m # [Suc m..<numeral n] else [])"
  by (simp add: upt_rec)

section \<open>Properties of the tables\<close>

lemma upt4: "[0..<4] = [0, 1, 2, 3]"
  by (simp add: upt_rec)

lemma fill_rot_fold:
  "fst (foldl (fill_rot i) (T, y) [0..<4]) =
     T[i := y, i + 256 := rotrFixed y 8, i + 512 := rotrFixed (rotrFixed y 8) 8,
       i + 768 := rotrFixed (rotrFixed (rotrFixed y 8) 8) 8]"
  by (simp add: upt4 fill_rot_def)

lemma less4_cases: "j < 4 \<Longrightarrow> j = 0 \<or> j = 1 \<or> j = 2 \<or> j = (3::nat)"
  by arith

lemma funpow2: "(f ^^ 2) y = f (f y)"
  by (simp add: numeral_2_eq_2)

lemma funpow3: "(f ^^ 3) y = f (f (f y))"
  by (simp add: numeral_3_eq_3)

lemma fill_rot_length: "length (fst (foldl (fill_rot i) (T, y) [0..<4])) = length T"
  by (simp add: fill_rot_fold)

lemma fill_rot_nth:
  assumes "length T = 1024" "i < 256" "m < 256" "j < 4"
  shows "fst (foldl (fill_rot i) (T, y) [0..<4]) ! (j * 256 + m) =
           (if m = i then (rotrFixed_8 ^^ j) y else T ! (j * 256 + m))"
  using less4_cases [OF assms(4)] assms(1-3)
  by (auto simp: fill_rot_fold nth_list_update rotrFixed_8_def funpow2 funpow3)

lemma FillEncTable_body_length: "length (FillEncTable_body T i) = length T"
  by (simp add: FillEncTable_body_def fill_rot_length)

lemma FillDecTable_body_length: "length (FillDecTable_body T i) = length T"
  by (simp add: FillDecTable_body_def fill_rot_length)

lemma FillEncTable_body_nth:
  "length T = 1024 \<Longrightarrow> i < 256 \<Longrightarrow> m < 256 \<Longrightarrow> j < 4 \<Longrightarrow>
   FillEncTable_body T i ! (j * 256 + m) =
     (if m = i then (rotrFixed_8 ^^ j) (Te_word (Se ! i)) else T ! (j * 256 + m))"
  by (simp add: FillEncTable_body_def fill_rot_nth)

lemma FillDecTable_body_nth:
  "length T = 1024 \<Longrightarrow> i < 256 \<Longrightarrow> m < 256 \<Longrightarrow> j < 4 \<Longrightarrow>
   FillDecTable_body T i ! (j * 256 + m) =
     (if m = i then (rotrFixed_8 ^^ j) (Td_word (Sd ! i)) else T ! (j * 256 + m))"
  by (simp add: FillDecTable_body_def fill_rot_nth)

lemma FillEncTable_fold:
  assumes "length T = 1024" "k \<le> 256" "m < 256" "j < 4"
  shows "length (foldl FillEncTable_body T [0..<k]) = 1024 \<and>
         foldl FillEncTable_body T [0..<k] ! (j * 256 + m) =
           (if m < k then (rotrFixed_8 ^^ j) (Te_word (Se ! m)) else T ! (j * 256 + m))"
  using assms(2)
proof (induction k)
  case 0
  then show ?case by (simp add: assms(1))
next
  case (Suc k)
  then have IH: "length (foldl FillEncTable_body T [0..<k]) = 1024"
     "foldl FillEncTable_body T [0..<k] ! (j * 256 + m) =
           (if m < k then (rotrFixed_8 ^^ j) (Te_word (Se ! m)) else T ! (j * 256 + m))"
    by simp_all
  from Suc.prems have k: "k < 256" by simp
  show ?case
    using IH k assms(3,4)
    by (auto simp: FillEncTable_body_length FillEncTable_body_nth less_Suc_eq)
qed

lemma FillDecTable_fold:
  assumes "length T = 1024" "k \<le> 256" "m < 256" "j < 4"
  shows "length (foldl FillDecTable_body T [0..<k]) = 1024 \<and>
         foldl FillDecTable_body T [0..<k] ! (j * 256 + m) =
           (if m < k then (rotrFixed_8 ^^ j) (Td_word (Sd ! m)) else T ! (j * 256 + m))"
  using assms(2)
proof (induction k)
  case 0
  then show ?case by (simp add: assms(1))
next
  case (Suc k)
  then have IH: "length (foldl FillDecTable_body T [0..<k]) = 1024"
     "foldl FillDecTable_body T [0..<k] ! (j * 256 + m) =
           (if m < k then (rotrFixed_8 ^^ j) (Td_word (Sd ! m)) else T ! (j * 256 + m))"
    by simp_all
  from Suc.prems have k: "k < 256" by simp
  show ?case
    using IH k assms(3,4)
    by (auto simp: FillDecTable_body_length FillDecTable_body_nth less_Suc_eq)
qed

lemma Te_nth: "m < 256 \<Longrightarrow> j < 4 \<Longrightarrow> Te ! (j * 256 + m) = (rotrFixed_8 ^^ j) (Te_word (Se ! m))"
  using FillEncTable_fold [of "replicate 1024 0" 256 m j]
  by (simp add: Te_def FillEncTable_def)

lemma Td_nth: "m < 256 \<Longrightarrow> j < 4 \<Longrightarrow> Td ! (j * 256 + m) = (rotrFixed_8 ^^ j) (Td_word (Sd ! m))"
  using FillDecTable_fold [of "replicate 1024 0" 256 m j]
  by (simp add: Td_def FillDecTable_def)

lemma Te_length: "length Te = 1024"
  using FillEncTable_fold [of "replicate 1024 0" 256 0 0]
  by (simp add: Te_def FillEncTable_def)

lemma Td_length: "length Td = 1024"
  using FillDecTable_fold [of "replicate 1024 0" 256 0 0]
  by (simp add: Td_def FillDecTable_def)

lemma Se_simps:
  "Se ! 0 = 0x63" "Se ! 1 = 0x7c" "Se ! 2 = 0x77" "Se ! 3 = 0x7b"
  "Se ! 4 = 0xf2" "Se ! 5 = 0x6b" "Se ! 6 = 0x6f" "Se ! 7 = 0xc5"
  "Se ! 8 = 0x30" "Se ! 9 = 0x01" "Se ! 10 = 0x67" "Se ! 11 = 0x2b"
  "Se ! 12 = 0xfe" "Se ! 13 = 0xd7" "Se ! 14 = 0xab" "Se ! 15 = 0x76"
  "Se ! 16 = 0xca" "Se ! 17 = 0x82" "Se ! 18 = 0xc9" "Se ! 19 = 0x7d"
  "Se ! 20 = 0xfa" "Se ! 21 = 0x59" "Se ! 22 = 0x47" "Se ! 23 = 0xf0"
  "Se ! 24 = 0xad" "Se ! 25 = 0xd4" "Se ! 26 = 0xa2" "Se ! 27 = 0xaf"
  "Se ! 28 = 0x9c" "Se ! 29 = 0xa4" "Se ! 30 = 0x72" "Se ! 31 = 0xc0"
  "Se ! 32 = 0xb7" "Se ! 33 = 0xfd" "Se ! 34 = 0x93" "Se ! 35 = 0x26"
  "Se ! 36 = 0x36" "Se ! 37 = 0x3f" "Se ! 38 = 0xf7" "Se ! 39 = 0xcc"
  "Se ! 40 = 0x34" "Se ! 41 = 0xa5" "Se ! 42 = 0xe5" "Se ! 43 = 0xf1"
  "Se ! 44 = 0x71" "Se ! 45 = 0xd8" "Se ! 46 = 0x31" "Se ! 47 = 0x15"
  "Se ! 48 = 0x04" "Se ! 49 = 0xc7" "Se ! 50 = 0x23" "Se ! 51 = 0xc3"
  "Se ! 52 = 0x18" "Se ! 53 = 0x96" "Se ! 54 = 0x05" "Se ! 55 = 0x9a"
  "Se ! 56 = 0x07" "Se ! 57 = 0x12" "Se ! 58 = 0x80" "Se ! 59 = 0xe2"
  "Se ! 60 = 0xeb" "Se ! 61 = 0x27" "Se ! 62 = 0xb2" "Se ! 63 = 0x75"
  "Se ! 64 = 0x09" "Se ! 65 = 0x83" "Se ! 66 = 0x2c" "Se ! 67 = 0x1a"
  "Se ! 68 = 0x1b" "Se ! 69 = 0x6e" "Se ! 70 = 0x5a" "Se ! 71 = 0xa0"
  "Se ! 72 = 0x52" "Se ! 73 = 0x3b" "Se ! 74 = 0xd6" "Se ! 75 = 0xb3"
  "Se ! 76 = 0x29" "Se ! 77 = 0xe3" "Se ! 78 = 0x2f" "Se ! 79 = 0x84"
  "Se ! 80 = 0x53" "Se ! 81 = 0xd1" "Se ! 82 = 0x00" "Se ! 83 = 0xed"
  "Se ! 84 = 0x20" "Se ! 85 = 0xfc" "Se ! 86 = 0xb1" "Se ! 87 = 0x5b"
  "Se ! 88 = 0x6a" "Se ! 89 = 0xcb" "Se ! 90 = 0xbe" "Se ! 91 = 0x39"
  "Se ! 92 = 0x4a" "Se ! 93 = 0x4c" "Se ! 94 = 0x58" "Se ! 95 = 0xcf"
  "Se ! 96 = 0xd0" "Se ! 97 = 0xef" "Se ! 98 = 0xaa" "Se ! 99 = 0xfb"
  "Se ! 100 = 0x43" "Se ! 101 = 0x4d" "Se ! 102 = 0x33" "Se ! 103 = 0x85"
  "Se ! 104 = 0x45" "Se ! 105 = 0xf9" "Se ! 106 = 0x02" "Se ! 107 = 0x7f"
  "Se ! 108 = 0x50" "Se ! 109 = 0x3c" "Se ! 110 = 0x9f" "Se ! 111 = 0xa8"
  "Se ! 112 = 0x51" "Se ! 113 = 0xa3" "Se ! 114 = 0x40" "Se ! 115 = 0x8f"
  "Se ! 116 = 0x92" "Se ! 117 = 0x9d" "Se ! 118 = 0x38" "Se ! 119 = 0xf5"
  "Se ! 120 = 0xbc" "Se ! 121 = 0xb6" "Se ! 122 = 0xda" "Se ! 123 = 0x21"
  "Se ! 124 = 0x10" "Se ! 125 = 0xff" "Se ! 126 = 0xf3" "Se ! 127 = 0xd2"
  "Se ! 128 = 0xcd" "Se ! 129 = 0x0c" "Se ! 130 = 0x13" "Se ! 131 = 0xec"
  "Se ! 132 = 0x5f" "Se ! 133 = 0x97" "Se ! 134 = 0x44" "Se ! 135 = 0x17"
  "Se ! 136 = 0xc4" "Se ! 137 = 0xa7" "Se ! 138 = 0x7e" "Se ! 139 = 0x3d"
  "Se ! 140 = 0x64" "Se ! 141 = 0x5d" "Se ! 142 = 0x19" "Se ! 143 = 0x73"
  "Se ! 144 = 0x60" "Se ! 145 = 0x81" "Se ! 146 = 0x4f" "Se ! 147 = 0xdc"
  "Se ! 148 = 0x22" "Se ! 149 = 0x2a" "Se ! 150 = 0x90" "Se ! 151 = 0x88"
  "Se ! 152 = 0x46" "Se ! 153 = 0xee" "Se ! 154 = 0xb8" "Se ! 155 = 0x14"
  "Se ! 156 = 0xde" "Se ! 157 = 0x5e" "Se ! 158 = 0x0b" "Se ! 159 = 0xdb"
  "Se ! 160 = 0xe0" "Se ! 161 = 0x32" "Se ! 162 = 0x3a" "Se ! 163 = 0x0a"
  "Se ! 164 = 0x49" "Se ! 165 = 0x06" "Se ! 166 = 0x24" "Se ! 167 = 0x5c"
  "Se ! 168 = 0xc2" "Se ! 169 = 0xd3" "Se ! 170 = 0xac" "Se ! 171 = 0x62"
  "Se ! 172 = 0x91" "Se ! 173 = 0x95" "Se ! 174 = 0xe4" "Se ! 175 = 0x79"
  "Se ! 176 = 0xe7" "Se ! 177 = 0xc8" "Se ! 178 = 0x37" "Se ! 179 = 0x6d"
  "Se ! 180 = 0x8d" "Se ! 181 = 0xd5" "Se ! 182 = 0x4e" "Se ! 183 = 0xa9"
  "Se ! 184 = 0x6c" "Se ! 185 = 0x56" "Se ! 186 = 0xf4" "Se ! 187 = 0xea"
  "Se ! 188 = 0x65" "Se ! 189 = 0x7a" "Se ! 190 = 0xae" "Se ! 191 = 0x08"
  "Se ! 192 = 0xba" "Se ! 193 = 0x78" "Se ! 194 = 0x25" "Se ! 195 = 0x2e"
  "Se ! 196 = 0x1c" "Se ! 197 = 0xa6" "Se ! 198 = 0xb4" "Se ! 199 = 0xc6"
  "Se ! 200 = 0xe8" "Se ! 201 = 0xdd" "Se ! 202 = 0x74" "Se ! 203 = 0x1f"
  "Se ! 204 = 0x4b" "Se ! 205 = 0xbd" "Se ! 206 = 0x8b" "Se ! 207 = 0x8a"
  "Se ! 208 = 0x70" "Se ! 209 = 0x3e" "Se ! 210 = 0xb5" "Se ! 211 = 0x66"
  "Se ! 212 = 0x48" "Se ! 213 = 0x03" "Se ! 214 = 0xf6" "Se ! 215 = 0x0e"
  "Se ! 216 = 0x61" "Se ! 217 = 0x35" "Se ! 218 = 0x57" "Se ! 219 = 0xb9"
  "Se ! 220 = 0x86" "Se ! 221 = 0xc1" "Se ! 222 = 0x1d" "Se ! 223 = 0x9e"
  "Se ! 224 = 0xe1" "Se ! 225 = 0xf8" "Se ! 226 = 0x98" "Se ! 227 = 0x11"
  "Se ! 228 = 0x69" "Se ! 229 = 0xd9" "Se ! 230 = 0x8e" "Se ! 231 = 0x94"
  "Se ! 232 = 0x9b" "Se ! 233 = 0x1e" "Se ! 234 = 0x87" "Se ! 235 = 0xe9"
  "Se ! 236 = 0xce" "Se ! 237 = 0x55" "Se ! 238 = 0x28" "Se ! 239 = 0xdf"
  "Se ! 240 = 0x8c" "Se ! 241 = 0xa1" "Se ! 242 = 0x89" "Se ! 243 = 0x0d"
  "Se ! 244 = 0xbf" "Se ! 245 = 0xe6" "Se ! 246 = 0x42" "Se ! 247 = 0x68"
  "Se ! 248 = 0x41" "Se ! 249 = 0x99" "Se ! 250 = 0x2d" "Se ! 251 = 0x0f"
  "Se ! 252 = 0xb0" "Se ! 253 = 0x54" "Se ! 254 = 0xbb" "Se ! 255 = 0x16"
  by (simp_all add: Se_def)

lemma Sd_simps:
  "Sd ! 0 = 0x52" "Sd ! 1 = 0x09" "Sd ! 2 = 0x6a" "Sd ! 3 = 0xd5"
  "Sd ! 4 = 0x30" "Sd ! 5 = 0x36" "Sd ! 6 = 0xa5" "Sd ! 7 = 0x38"
  "Sd ! 8 = 0xbf" "Sd ! 9 = 0x40" "Sd ! 10 = 0xa3" "Sd ! 11 = 0x9e"
  "Sd ! 12 = 0x81" "Sd ! 13 = 0xf3" "Sd ! 14 = 0xd7" "Sd ! 15 = 0xfb"
  "Sd ! 16 = 0x7c" "Sd ! 17 = 0xe3" "Sd ! 18 = 0x39" "Sd ! 19 = 0x82"
  "Sd ! 20 = 0x9b" "Sd ! 21 = 0x2f" "Sd ! 22 = 0xff" "Sd ! 23 = 0x87"
  "Sd ! 24 = 0x34" "Sd ! 25 = 0x8e" "Sd ! 26 = 0x43" "Sd ! 27 = 0x44"
  "Sd ! 28 = 0xc4" "Sd ! 29 = 0xde" "Sd ! 30 = 0xe9" "Sd ! 31 = 0xcb"
  "Sd ! 32 = 0x54" "Sd ! 33 = 0x7b" "Sd ! 34 = 0x94" "Sd ! 35 = 0x32"
  "Sd ! 36 = 0xa6" "Sd ! 37 = 0xc2" "Sd ! 38 = 0x23" "Sd ! 39 = 0x3d"
  "Sd ! 40 = 0xee" "Sd ! 41 = 0x4c" "Sd ! 42 = 0x95" "Sd ! 43 = 0x0b"
  "Sd ! 44 = 0x42" "Sd ! 45 = 0xfa" "Sd ! 46 = 0xc3" "Sd ! 47 = 0x4e"
  "Sd ! 48 = 0x08" "Sd ! 49 = 0x2e" "Sd ! 50 = 0xa1" "Sd ! 51 = 0x66"
  "Sd ! 52 = 0x28" "Sd ! 53 = 0xd9" "Sd ! 54 = 0x24" "Sd ! 55 = 0xb2"
  "Sd ! 56 = 0x76" "Sd ! 57 = 0x5b" "Sd ! 58 = 0xa2" "Sd ! 59 = 0x49"
  "Sd ! 60 = 0x6d" "Sd ! 61 = 0x8b" "Sd ! 62 = 0xd1" "Sd ! 63 = 0x25"
  "Sd ! 64 = 0x72" "Sd ! 65 = 0xf8" "Sd ! 66 = 0xf6" "Sd ! 67 = 0x64"
  "Sd ! 68 = 0x86" "Sd ! 69 = 0x68" "Sd ! 70 = 0x98" "Sd ! 71 = 0x16"
  "Sd ! 72 = 0xd4" "Sd ! 73 = 0xa4" "Sd ! 74 = 0x5c" "Sd ! 75 = 0xcc"
  "Sd ! 76 = 0x5d" "Sd ! 77 = 0x65" "Sd ! 78 = 0xb6" "Sd ! 79 = 0x92"
  "Sd ! 80 = 0x6c" "Sd ! 81 = 0x70" "Sd ! 82 = 0x48" "Sd ! 83 = 0x50"
  "Sd ! 84 = 0xfd" "Sd ! 85 = 0xed" "Sd ! 86 = 0xb9" "Sd ! 87 = 0xda"
  "Sd ! 88 = 0x5e" "Sd ! 89 = 0x15" "Sd ! 90 = 0x46" "Sd ! 91 = 0x57"
  "Sd ! 92 = 0xa7" "Sd ! 93 = 0x8d" "Sd ! 94 = 0x9d" "Sd ! 95 = 0x84"
  "Sd ! 96 = 0x90" "Sd ! 97 = 0xd8" "Sd ! 98 = 0xab" "Sd ! 99 = 0x00"
  "Sd ! 100 = 0x8c" "Sd ! 101 = 0xbc" "Sd ! 102 = 0xd3" "Sd ! 103 = 0x0a"
  "Sd ! 104 = 0xf7" "Sd ! 105 = 0xe4" "Sd ! 106 = 0x58" "Sd ! 107 = 0x05"
  "Sd ! 108 = 0xb8" "Sd ! 109 = 0xb3" "Sd ! 110 = 0x45" "Sd ! 111 = 0x06"
  "Sd ! 112 = 0xd0" "Sd ! 113 = 0x2c" "Sd ! 114 = 0x1e" "Sd ! 115 = 0x8f"
  "Sd ! 116 = 0xca" "Sd ! 117 = 0x3f" "Sd ! 118 = 0x0f" "Sd ! 119 = 0x02"
  "Sd ! 120 = 0xc1" "Sd ! 121 = 0xaf" "Sd ! 122 = 0xbd" "Sd ! 123 = 0x03"
  "Sd ! 124 = 0x01" "Sd ! 125 = 0x13" "Sd ! 126 = 0x8a" "Sd ! 127 = 0x6b"
  "Sd ! 128 = 0x3a" "Sd ! 129 = 0x91" "Sd ! 130 = 0x11" "Sd ! 131 = 0x41"
  "Sd ! 132 = 0x4f" "Sd ! 133 = 0x67" "Sd ! 134 = 0xdc" "Sd ! 135 = 0xea"
  "Sd ! 136 = 0x97" "Sd ! 137 = 0xf2" "Sd ! 138 = 0xcf" "Sd ! 139 = 0xce"
  "Sd ! 140 = 0xf0" "Sd ! 141 = 0xb4" "Sd ! 142 = 0xe6" "Sd ! 143 = 0x73"
  "Sd ! 144 = 0x96" "Sd ! 145 = 0xac" "Sd ! 146 = 0x74" "Sd ! 147 = 0x22"
  "Sd ! 148 = 0xe7" "Sd ! 149 = 0xad" "Sd ! 150 = 0x35" "Sd ! 151 = 0x85"
  "Sd ! 152 = 0xe2" "Sd ! 153 = 0xf9" "Sd ! 154 = 0x37" "Sd ! 155 = 0xe8"
  "Sd ! 156 = 0x1c" "Sd ! 157 = 0x75" "Sd ! 158 = 0xdf" "Sd ! 159 = 0x6e"
  "Sd ! 160 = 0x47" "Sd ! 161 = 0xf1" "Sd ! 162 = 0x1a" "Sd ! 163 = 0x71"
  "Sd ! 164 = 0x1d" "Sd ! 165 = 0x29" "Sd ! 166 = 0xc5" "Sd ! 167 = 0x89"
  "Sd ! 168 = 0x6f" "Sd ! 169 = 0xb7" "Sd ! 170 = 0x62" "Sd ! 171 = 0x0e"
  "Sd ! 172 = 0xaa" "Sd ! 173 = 0x18" "Sd ! 174 = 0xbe" "Sd ! 175 = 0x1b"
  "Sd ! 176 = 0xfc" "Sd ! 177 = 0x56" "Sd ! 178 = 0x3e" "Sd ! 179 = 0x4b"
  "Sd ! 180 = 0xc6" "Sd ! 181 = 0xd2" "Sd ! 182 = 0x79" "Sd ! 183 = 0x20"
  "Sd ! 184 = 0x9a" "Sd ! 185 = 0xdb" "Sd ! 186 = 0xc0" "Sd ! 187 = 0xfe"
  "Sd ! 188 = 0x78" "Sd ! 189 = 0xcd" "Sd ! 190 = 0x5a" "Sd ! 191 = 0xf4"
  "Sd ! 192 = 0x1f" "Sd ! 193 = 0xdd" "Sd ! 194 = 0xa8" "Sd ! 195 = 0x33"
  "Sd ! 196 = 0x88" "Sd ! 197 = 0x07" "Sd ! 198 = 0xc7" "Sd ! 199 = 0x31"
  "Sd ! 200 = 0xb1" "Sd ! 201 = 0x12" "Sd ! 202 = 0x10" "Sd ! 203 = 0x59"
  "Sd ! 204 = 0x27" "Sd ! 205 = 0x80" "Sd ! 206 = 0xec" "Sd ! 207 = 0x5f"
  "Sd ! 208 = 0x60" "Sd ! 209 = 0x51" "Sd ! 210 = 0x7f" "Sd ! 211 = 0xa9"
  "Sd ! 212 = 0x19" "Sd ! 213 = 0xb5" "Sd ! 214 = 0x4a" "Sd ! 215 = 0x0d"
  "Sd ! 216 = 0x2d" "Sd ! 217 = 0xe5" "Sd ! 218 = 0x7a" "Sd ! 219 = 0x9f"
  "Sd ! 220 = 0x93" "Sd ! 221 = 0xc9" "Sd ! 222 = 0x9c" "Sd ! 223 = 0xef"
  "Sd ! 224 = 0xa0" "Sd ! 225 = 0xe0" "Sd ! 226 = 0x3b" "Sd ! 227 = 0x4d"
  "Sd ! 228 = 0xae" "Sd ! 229 = 0x2a" "Sd ! 230 = 0xf5" "Sd ! 231 = 0xb0"
  "Sd ! 232 = 0xc8" "Sd ! 233 = 0xeb" "Sd ! 234 = 0xbb" "Sd ! 235 = 0x3c"
  "Sd ! 236 = 0x83" "Sd ! 237 = 0x53" "Sd ! 238 = 0x99" "Sd ! 239 = 0x61"
  "Sd ! 240 = 0x17" "Sd ! 241 = 0x2b" "Sd ! 242 = 0x04" "Sd ! 243 = 0x7e"
  "Sd ! 244 = 0xba" "Sd ! 245 = 0x77" "Sd ! 246 = 0xd6" "Sd ! 247 = 0x26"
  "Sd ! 248 = 0xe1" "Sd ! 249 = 0x69" "Sd ! 250 = 0x14" "Sd ! 251 = 0x63"
  "Sd ! 252 = 0x55" "Sd ! 253 = 0x21" "Sd ! 254 = 0x0c" "Sd ! 255 = 0x7d"
  by (simp_all add: Sd_def)

section \<open>Evaluation rules for the block functions\<close>

lemma word32_of_nat_mod: "(of_nat (n mod 4294967296) :: word32) = of_nat n"
  by (simp add: word_of_nat_eq_iff take_bit_eq_mod)

lemma word32_numeral_norm:
  "(4294967296::nat) \<le> numeral k \<Longrightarrow> (numeral k :: word32) = of_nat (numeral k mod 4294967296)"
  using word32_of_nat_mod [of "numeral k"] by (simp only: of_nat_numeral)

lemma preload_zero: "preload rd n = 0"
proof -
  have "foldl (\<lambda>u i. u AND rd i) 0 xs = 0" for xs :: "nat list"
    by (induction xs) simp_all
  then show ?thesis by (simp add: preload_def)
qed

lemma Te_lookup: "m < 256 \<Longrightarrow> Te ! m = Te_word (Se ! m)"
  using Te_nth [of m 0] by simp

lemma Td_lookup: "m < 256 \<Longrightarrow> Td ! m = Td_word (Sd ! m)"
  using Td_nth [of m 0] by simp

lemma TL_table_0: "x < 256 \<Longrightarrow> TL_table 0 x = Te_word (Se ! x)"
  using Te_nth [of x 0] by (simp add: TL_table_def)

lemma TL_table_1: "x < 256 \<Longrightarrow> TL_table (Suc 0) x = rotrFixed (Te_word (Se ! x)) 8"
  using Te_nth [of x 1] by (simp add: TL_table_def rotrFixed_8_def)

lemma TL_table_2: "x < 256 \<Longrightarrow> TL_table 2 x = rotrFixed (rotrFixed (Te_word (Se ! x)) 8) 8"
  using Te_nth [of x 2] by (simp add: TL_table_def rotrFixed_8_def funpow2)

lemma TL_table_3:
  "x < 256 \<Longrightarrow> TL_table 3 x = rotrFixed (rotrFixed (rotrFixed (Te_word (Se ! x)) 8) 8) 8"
  using Te_nth [of x 3] by (simp add: TL_table_def rotrFixed_8_def funpow3)

lemmas TL_table_simps = TL_table_0 TL_table_1 TL_table_2 TL_table_3

lemma Td_lookup_1: "x < 256 \<Longrightarrow> Td ! (256 + x) = rotrFixed (Td_word (Sd ! x)) 8"
  using Td_nth [of x 1] by (simp add: rotrFixed_8_def add.commute)

lemma Td_lookup_2: "x < 256 \<Longrightarrow> Td ! (512 + x) = rotrFixed (rotrFixed (Td_word (Sd ! x)) 8) 8"
  using Td_nth [of x 2] by (simp add: rotrFixed_8_def funpow2 add.commute)

lemma Td_lookup_3:
  "x < 256 \<Longrightarrow> Td ! (768 + x) = rotrFixed (rotrFixed (rotrFixed (Td_word (Sd ! x)) 8) 8) 8"
  using Td_nth [of x 3] by (simp add: rotrFixed_8_def funpow3 add.commute)

section \<open>Base-N codec: splitting the input\<close>

lemma enc_loop_append:
  "enc_loop st (a @ b) =
     (case enc_loop st a of
        Inl e \<Rightarrow> Inl e
      | Inr (st', out) \<Rightarrow>
          (case enc_loop st' b of
             Inl e \<Rightarrow> Inl e
           | Inr (st'', out') \<Rightarrow> Inr (st'', out @ out')))"
  by (induction a arbitrary: st) (auto split: sum.splits prod.splits)

lemma dec_loop_append:
  "dec_loop st (a @ b) =
     (case dec_loop st a of
        Inl e \<Rightarrow> Inl e
      | Inr (st', out) \<Rightarrow>
          (case dec_loop st' b of
             Inl e \<Rightarrow> Inl e
           | Inr (st'', out') \<Rightarrow> Inr (st'', out @ out')))"
  by (induction a arbitrary: st) (auto split: sum.splits prod.splits)

lemma Grouper_loop_groupSize:
  "Grouper_loop st input = (st', out) \<Longrightarrow>
     m_groupSize st' = m_groupSize st \<and> m_separator st' = m_separator st \<and>
     m_terminator st' = m_terminator st"
proof (induction "length input" arbitrary: st input st' out rule: less_induct)
  case less
  show ?case
  proof (cases "m_groupSize st \<noteq> 0 \<and> input \<noteq> []")
    case False
    with less.prems show ?thesis
      by (subst (asm) Grouper_loop.simps) auto
  next
    case True
    define st1 where "st1 = (if m_counter st = m_groupSize st then st\<lparr>m_counter := 0\<rparr> else st)"
    define len where "len = min (length input) (unat (m_groupSize st1 - m_counter st1))"
    define st2 where "st2 = st1\<lparr>m_counter := m_counter st1 + of_nat len\<rparr>"
    have ne: "m_groupSize st1 - m_counter st1 \<noteq> 0"
      using True by (auto simp: st1_def)
    then have "unat (m_groupSize st1 - m_counter st1) \<noteq> 0"
      by (simp add: unat_eq_0)
    with True have len: "0 < len" by (cases input) (auto simp: len_def min_def)
    obtain st3 out3 where r: "Grouper_loop st2 (drop len input) = (st3, out3)"
      by (cases "Grouper_loop st2 (drop len input)") auto
    have "st' = st3"
      using less.prems True r
      by (subst (asm) Grouper_loop.simps)
         (auto simp: st1_def st2_def len_def Let_def split: if_splits prod.splits)
    moreover have "length (drop len input) < length input"
      using len True by (cases input) auto
    from less.hyps [OF this r]
    have "m_groupSize st3 = m_groupSize st2 \<and> m_separator st3 = m_separator st2 \<and>
          m_terminator st3 = m_terminator st2" .
    ultimately show ?thesis by (simp add: st2_def st1_def)
  qed
qed

section \<open>Grouper\<close>

lemma Grouper_loop_stop:
  "m_groupSize st = 0 \<or> input = [] \<Longrightarrow> Grouper_loop st input = (st, [])"
  by (subst Grouper_loop.simps) auto

lemma Grouper_room_pos: "m_groupSize st \<noteq> 0 \<Longrightarrow> 0 < Grouper_room st"
  by (auto simp: Grouper_room_def Grouper_sep_def unat_gt_0)

lemma Grouper_loop_step:
  assumes "m_groupSize st \<noteq> 0" "input \<noteq> []"
  shows "Grouper_loop st input =
          (let len = min (length input) (Grouper_room st);
               st1 = fst (Grouper_sep st);
               r = Grouper_loop (st1\<lparr>m_counter := m_counter st1 + of_nat len\<rparr>) (drop len input)
           in (fst r, snd (Grouper_sep st) @ take len input @ snd r))"
  using assms
  by (subst Grouper_loop.simps)
     (simp add: Grouper_room_def Grouper_sep_def Let_def split: prod.splits)

lemma Grouper_room_advance:
  assumes "m_groupSize st \<noteq> 0" "n < Grouper_room st"
  shows "Grouper_sep ((fst (Grouper_sep st))\<lparr>m_counter := m_counter (fst (Grouper_sep st)) + of_nat n\<rparr>) =
           ((fst (Grouper_sep st))\<lparr>m_counter := m_counter (fst (Grouper_sep st)) + of_nat n\<rparr>, [])"
    and "Grouper_room ((fst (Grouper_sep st))\<lparr>m_counter := m_counter (fst (Grouper_sep st)) + of_nat n\<rparr>) =
           Grouper_room st - n"
proof -
  define st1 where "st1 = fst (Grouper_sep st)"
  define g where "g = m_groupSize st1"
  define c where "c = m_counter st1"
  have n: "n < unat (g - c)"
    using assms(2) by (simp add: Grouper_room_def st1_def g_def c_def)
  have un: "unat (of_nat n :: word32) = n"
    using n le_unat_uoi [of n "g - c"] by simp
  have le: "(of_nat n :: word32) \<le> g - c"
    using n un by (simp add: word_le_nat_alt)
  have eq: "g - (c + of_nat n) = (g - c) - of_nat n"
    by simp
  have u: "unat (g - (c + of_nat n)) = unat (g - c) - n"
    unfolding eq using le un by (simp add: unat_sub)
  have ne: "c + of_nat n \<noteq> g"
  proof
    assume "c + of_nat n = g"
    then have "g - (c + of_nat n) = 0" by simp
    with u n show False by simp
  qed
  have g': "m_groupSize (st1\<lparr>m_counter := c + of_nat n\<rparr>) = g"
    by (simp add: g_def)
  show "Grouper_sep ((fst (Grouper_sep st))\<lparr>m_counter := m_counter (fst (Grouper_sep st)) + of_nat n\<rparr>) =
           ((fst (Grouper_sep st))\<lparr>m_counter := m_counter (fst (Grouper_sep st)) + of_nat n\<rparr>, [])"
    using ne by (simp add: Grouper_sep_def [of "st1\<lparr>m_counter := c + of_nat n\<rparr>"] g'
        flip: st1_def c_def)
  then show "Grouper_room ((fst (Grouper_sep st))\<lparr>m_counter := m_counter (fst (Grouper_sep st)) + of_nat n\<rparr>) =
           Grouper_room st - n"
    using u
    by (simp add: Grouper_room_def [of "st1\<lparr>m_counter := c + of_nat n\<rparr>"]
                  Grouper_room_def [of st] g' flip: st1_def c_def g_def)
qed

lemma Grouper_sep_groupSize: "m_groupSize (fst (Grouper_sep st)) = m_groupSize st"
  by (simp add: Grouper_sep_def)

lemma Grouper_loop_append:
  "Grouper_loop st (a @ b) =
     (let r = Grouper_loop st a; r' = Grouper_loop (fst r) b in (fst r', snd r @ snd r'))"
proof (induction "length a" arbitrary: st a rule: less_induct)
  case less
  show ?case
  proof (cases "m_groupSize st = 0 \<or> a = []")
    case True
    then show ?thesis
      by (auto simp: Grouper_loop_stop Let_def)
  next
    case False
    then have g: "m_groupSize st \<noteq> 0" and a: "a \<noteq> []" by auto
    define st1 where "st1 = fst (Grouper_sep st)"
    define u where "u = Grouper_room st"
    have u: "0 < u" using g by (simp add: u_def Grouper_room_pos)
    show ?thesis
    proof (cases "u \<le> length a")
      case True
      then have m1: "min (length a + length b) u = u" and m2: "min (length a) u = u"
        by auto
      have sh: "length (drop u a) < length a"
        using u a by (cases a) auto
      have d: "u - length a = 0"
        using True by simp
      show ?thesis
        using less.hyps [OF sh, of "st1\<lparr>m_counter := m_counter st1 + of_nat u\<rparr>"]
        by (simp add: Grouper_loop_step [OF g a] Grouper_loop_step [OF g, of "a @ b"] a
            m1 m2 d Let_def flip: u_def st1_def)
    next
      case False
      then have ua: "length a < u" by simp
      then have m2: "min (length a) u = length a" by simp
      define st2 where "st2 = st1\<lparr>m_counter := m_counter st1 + of_nat (length a)\<rparr>"
      have ra: "Grouper_loop st a = (st2, snd (Grouper_sep st) @ a)"
        by (simp add: Grouper_loop_step [OF g a] m2 Grouper_loop_stop Let_def st2_def
            flip: u_def st1_def)
      have g2: "m_groupSize st2 \<noteq> 0"
        using g by (simp add: st2_def st1_def Grouper_sep_groupSize)
      have adv: "Grouper_sep st2 = (st2, [])" "Grouper_room st2 = u - length a"
        using Grouper_room_advance [OF g, of "length a"] ua
        by (simp_all add: st2_def st1_def u_def)
      show ?thesis
      proof (cases "b = []")
        case True
        then show ?thesis by (simp add: ra Grouper_loop_stop Let_def)
      next
        case bne: False
        define n where "n = min (length b) (u - length a)"
        have m1: "min (length a + length b) u = length a + n"
          using ua by (auto simp: n_def min_def)
        have d: "drop (length a + n) (a @ b) = drop n b" "take (length a + n) (a @ b) = a @ take n b"
          by auto
        have c: "st1\<lparr>m_counter := m_counter st1 + (of_nat (length a) + of_nat n)\<rparr> =
                 st2\<lparr>m_counter := m_counter st2 + of_nat n\<rparr>"
          by (simp add: st2_def add.assoc)
        show ?thesis
          by (simp add: ra Grouper_loop_step [OF g, of "a @ b"] a Grouper_loop_step [OF g2 bne]
              adv m1 d c Let_def flip: u_def st1_def n_def)
      qed
    qed
  qed
qed

section \<open>The encoder never fails\<close>

lemma unat_less_iff_take_bit: "unat v < 2 ^ n \<longleftrightarrow> take_bit n v = v" for v :: "'a::len word"
proof -
  have "take_bit n v = v \<longleftrightarrow> unat (take_bit n v) = unat v"
    by (simp add: word_unat_eq_iff)
  also have "\<dots> \<longleftrightarrow> unat v < 2 ^ n"
    by (simp add: unsigned_take_bit_eq take_bit_nat_eq_self_iff)
  finally show ?thesis by simp
qed

lemma take_bit_src:
  fixes src :: word32
  assumes "take_bit 8 src = src" "t \<le> 8"
  shows "take_bit t (ucast (drop_bit (8 - t) src) :: byte) = ucast (drop_bit (8 - t) src)"
proof (rule bit_word_eqI)
  fix n assume "n < LENGTH(8)"
  have *: "n < t" if "bit src (8 - t + n)"
  proof -
    from that have "bit (take_bit 8 src) (8 - t + n)" by (simp add: assms(1))
    then have "8 - t + n < 8" by (simp add: bit_simps)
    with assms(2) show "n < t" by arith
  qed
  show "bit (take_bit t (ucast (drop_bit (8 - t) src) :: byte)) n \<longleftrightarrow>
        bit (ucast (drop_bit (8 - t) src) :: byte) n"
    using * by (auto simp: bit_simps)
qed

lemma take_bit_next_src:
  fixes src :: word32
  shows "take_bit 8 (push_bit t src AND 0xff) = push_bit t src AND 0xff"
proof -
  have "(0xff :: word32) = mask 8" by (simp add: mask_eq_exp_minus_1)
  then show ?thesis
    by (simp add: take_bit_eq_mask and.assoc)
qed

lemma take_bit_ucast_byte: "take_bit 8 (ucast (x :: byte) :: word32) = ucast x"
  by (rule bit_word_eqI) (auto simp: bit_simps dest: bit_imp_le_length)

lemma block_size_loop_enc:
  "1 \<le> b \<Longrightarrow> b \<le> 7 \<Longrightarrow>
   block_size_loop 8 8 b = Some (if b = 1 \<or> b = 2 \<or> b = 4 then 8 else if b = 6 then 24 else 8 * b)"
proof -
  assume "1 \<le> b" "b \<le> 7"
  then consider "b = 1" | "b = 2" | "b = 3" | "b = 4" | "b = 5" | "b = 6" | "b = 7"
    by arith
  then show ?thesis
  proof cases
    case 1 then show ?thesis by (simp add: block_size_loop.simps)
  next
    case 2 then show ?thesis by (simp add: block_size_loop.simps)
  next
    case 3
    have "block_size_loop 24 8 3 = Some 24" by (simp add: block_size_loop.simps)
    then have "block_size_loop 16 8 3 = Some 24" by (subst block_size_loop.simps) simp
    then have "block_size_loop 8 8 3 = Some 24" by (subst block_size_loop.simps) simp
    with 3 show ?thesis by simp
  next
    case 4 then show ?thesis by (simp add: block_size_loop.simps)
  next
    case 5
    have "block_size_loop 40 8 5 = Some 40" by (simp add: block_size_loop.simps)
    then have "block_size_loop 32 8 5 = Some 40" by (subst block_size_loop.simps) simp
    then have "block_size_loop 24 8 5 = Some 40" by (subst block_size_loop.simps) simp
    then have "block_size_loop 16 8 5 = Some 40" by (subst block_size_loop.simps) simp
    then have "block_size_loop 8 8 5 = Some 40" by (subst block_size_loop.simps) simp
    with 5 show ?thesis by simp
  next
    case 6
    have "block_size_loop 24 8 6 = Some 24" by (simp add: block_size_loop.simps)
    then have "block_size_loop 16 8 6 = Some 24" by (subst block_size_loop.simps) simp
    then have "block_size_loop 8 8 6 = Some 24" by (subst block_size_loop.simps) simp
    with 6 show ?thesis by simp
  next
    case 7
    have "block_size_loop 56 8 7 = Some 56" by (simp add: block_size_loop.simps)
    then have "block_size_loop 48 8 7 = Some 56" by (subst block_size_loop.simps) simp
    then have "block_size_loop 40 8 7 = Some 56" by (subst block_size_loop.simps) simp
    then have "block_size_loop 32 8 7 = Some 56" by (subst block_size_loop.simps) simp
    then have "block_size_loop 24 8 7 = Some 56" by (subst block_size_loop.simps) simp
    then have "block_size_loop 16 8 7 = Some 56" by (subst block_size_loop.simps) simp
    then have "block_size_loop 8 8 7 = Some 56" by (subst block_size_loop.simps) simp
    with 7 show ?thesis by simp
  qed
qed

lemma take_bit_mono_eq:
  fixes x :: "'a::len word"
  assumes "take_bit t x = x" "t \<le> b"
  shows "take_bit b x = x"
proof (rule bit_word_eqI)
  fix n assume "n < LENGTH('a)"
  have "bit x n \<Longrightarrow> n < t"
  proof -
    assume "bit x n"
    then have "bit (take_bit t x) n" by (simp add: assms(1))
    then show "n < t" by (simp add: bit_simps)
  qed
  with assms(2) show "bit (take_bit b x) n \<longleftrightarrow> bit x n"
    by (auto simp: bit_simps)
qed

lemma list_all_update: "list_all P xs \<Longrightarrow> P y \<Longrightarrow> list_all P (xs[i := y])"
  by (cases "i < length xs") (auto simp: list_all_length nth_list_update)

lemma enc_bits_ok:
  assumes "enc_wf st" "syms_ok st" "m_bitPos st < m_bitsPerChar st" "1 \<le> k" "k \<le> 8"
    "take_bit 8 src = src"
    "m_bytePos st * m_bitsPerChar st + m_bitPos st + k \<le> m_outputBlockSize st * m_bitsPerChar st"
  shows "\<exists>st'. enc_bits st src k = Inr st' \<and> enc_wf st' \<and> syms_ok st' \<and>
           m_bitPos st' < m_bitsPerChar st' \<and>
           m_bytePos st' * m_bitsPerChar st' + m_bitPos st' =
             m_bytePos st * m_bitsPerChar st + m_bitPos st + k \<and>
           m_bitsPerChar st' = m_bitsPerChar st \<and> m_outputBlockSize st' = m_outputBlockSize st \<and>
           m_alphabet st' = m_alphabet st \<and> m_padding st' = m_padding st"
  using assms
proof (induction k arbitrary: st src rule: less_induct)
  case (less k)
  define b where "b = m_bitsPerChar st"
  define t where "t = b - m_bitPos st"
  define v where "v = m_outBuf st ! m_bytePos st OR (ucast (drop_bit (8 - t) src) :: byte)"
  define st1 where "st1 = st\<lparr>m_outBuf := (m_outBuf st)[m_bytePos st := v]\<rparr>"
  have b: "1 \<le> b" "b \<le> 7" and len: "length (m_outBuf st) = m_outputBlockSize st"
    using less.prems(1) by (simp_all add: enc_wf_def b_def)
  have t: "1 \<le> t" "t \<le> b" "t \<le> 8"
    using less.prems(3) b by (simp_all add: t_def b_def)
  have pos: "m_bytePos st < length (m_outBuf st)"
  proof (rule ccontr)
    assume "\<not> m_bytePos st < length (m_outBuf st)"
    then have "m_outputBlockSize st \<le> m_bytePos st" by (simp add: len)
    then have "m_outputBlockSize st * b \<le> m_bytePos st * b" by (rule mult_le_mono1)
    with less.prems(4,7) show False unfolding b_def by linarith
  qed
  have "take_bit b (m_outBuf st ! m_bytePos st) = m_outBuf st ! m_bytePos st"
    using less.prems(2) pos by (simp add: syms_ok_def list_all_length b_def)
  moreover have "take_bit b (ucast (drop_bit (8 - t) src) :: byte) = ucast (drop_bit (8 - t) src)"
    using take_bit_src [OF less.prems(6) t(3)] t(2) by (rule take_bit_mono_eq)
  ultimately have v: "take_bit b v = v"
    by (simp add: v_def)
  have wf1: "enc_wf st1" and ok1: "syms_ok st1"
    using less.prems(1,2) v
    by (simp_all add: st1_def enc_wf_def syms_ok_def list_all_update b_def)
  show ?case
  proof (cases "t \<le> k")
    case False
    then have "enc_bits st src k = Inr (st1\<lparr>m_bitPos := m_bitPos st + k\<rparr>)"
      using less.prems(3) pos
      by (subst enc_bits.simps) (simp add: Let_def st1_def v_def t_def b_def)
    moreover have "m_bitPos st + k < b"
      using False by (simp add: t_def)
    ultimately show ?thesis
      using wf1 ok1
      by (simp add: st1_def enc_wf_def syms_ok_def b_def add.assoc)
  next
    case True
    define st2 where "st2 = st1\<lparr>m_bitPos := 0, m_bytePos := m_bytePos st + 1\<rparr>"
    have wf2: "enc_wf st2" and ok2: "syms_ok st2"
      using wf1 ok1 by (simp_all add: st2_def enc_wf_def syms_ok_def)
    have total: "m_bytePos st2 * m_bitsPerChar st2 + m_bitPos st2 + (k - t) =
                 m_bytePos st * m_bitsPerChar st + m_bitPos st + k"
      using True less.prems(3) by (simp add: st2_def st1_def t_def b_def)
    show ?thesis
    proof (cases "k - t = 0")
      case z: True
      have "enc_bits st src k = Inr st2"
        using less.prems(3) pos True z
        by (subst enc_bits.simps) (simp add: Let_def st2_def st1_def v_def t_def b_def)
      then show ?thesis
        using wf2 ok2 total z b less.prems(4)
        by (simp add: st2_def st1_def b_def)
    next
      case nz: False
      have eq: "enc_bits st src k = enc_bits st2 (push_bit t src AND 0xff) (k - t)"
        using less.prems(3) pos True nz
        by (subst enc_bits.simps) (simp add: Let_def st2_def st1_def v_def t_def b_def)
      have lt: "k - t < k" using t(1) nz by simp
      have "\<exists>st'. enc_bits st2 (push_bit t src AND 0xff) (k - t) = Inr st' \<and> enc_wf st' \<and>
              syms_ok st' \<and> m_bitPos st' < m_bitsPerChar st' \<and>
              m_bytePos st' * m_bitsPerChar st' + m_bitPos st' =
                m_bytePos st2 * m_bitsPerChar st2 + m_bitPos st2 + (k - t) \<and>
              m_bitsPerChar st' = m_bitsPerChar st2 \<and> m_outputBlockSize st' = m_outputBlockSize st2 \<and>
              m_alphabet st' = m_alphabet st2 \<and> m_padding st' = m_padding st2"
      proof (rule less.IH [OF lt wf2 ok2])
        show "m_bitPos st2 < m_bitsPerChar st2"
          using b by (simp add: st2_def st1_def b_def)
        show "1 \<le> k - t" using nz by simp
        show "k - t \<le> 8" using less.prems(5) by simp
        show "take_bit 8 (push_bit t src AND 0xff) = push_bit t src AND 0xff"
          by (rule take_bit_next_src)
        show "m_bytePos st2 * m_bitsPerChar st2 + m_bitPos st2 + (k - t)
                \<le> m_outputBlockSize st2 * m_bitsPerChar st2"
          using less.prems(7) total by (simp add: st2_def st1_def)
      qed
      then show ?thesis
        unfolding eq total by (simp add: st2_def st1_def)
    qed
  qed
qed

lemma enc_translate_ok:
  assumes "distinct is"
    "\<forall>i\<in>set is. i < length (m_outBuf st) \<and> unat (m_outBuf st ! i) < 2 ^ m_bitsPerChar st \<and>
        unat (m_outBuf st ! i) < length (m_alphabet st)"
  shows "\<exists>buf. enc_translate chk st is = Inr (st\<lparr>m_outBuf := buf\<rparr>) \<and>
           length buf = length (m_outBuf st) \<and>
           (\<forall>i<length buf. buf ! i = (if i \<in> set is then enc_char st (m_outBuf st ! i)
                                        else m_outBuf st ! i))"
  using assms
proof (induction "is" arbitrary: st)
  case Nil
  have "st = st\<lparr>m_outBuf := m_outBuf st\<rparr>" by simp
  then show ?case by (intro exI [of _ "m_outBuf st"]) simp
next
  case (Cons i "is")
  define st1 where "st1 = st\<lparr>m_outBuf := (m_outBuf st)[i := m_alphabet st ! unat (m_outBuf st ! i)]\<rparr>"
  have i: "i \<notin> set is" "i < length (m_outBuf st)" and d: "distinct is"
    using Cons.prems by simp_all
  have same: "\<forall>j\<in>set is. m_outBuf st1 ! j = m_outBuf st ! j"
    using i by (auto simp: st1_def nth_list_update)
  have pre: "\<forall>j\<in>set is. j < length (m_outBuf st1) \<and> unat (m_outBuf st1 ! j) < 2 ^ m_bitsPerChar st1 \<and>
        unat (m_outBuf st1 ! j) < length (m_alphabet st1)"
    using Cons.prems(2) same by (simp add: st1_def)
  from Cons.IH [OF d pre] obtain buf where
    buf: "enc_translate chk st1 is = Inr (st1\<lparr>m_outBuf := buf\<rparr>)"
      "length buf = length (m_outBuf st1)"
      "\<forall>j<length buf. buf ! j = (if j \<in> set is then enc_char st1 (m_outBuf st1 ! j)
                                        else m_outBuf st1 ! j)"
    by blast
  have "enc_translate chk st (i # is) = Inr (st\<lparr>m_outBuf := buf\<rparr>)"
    using Cons.prems(2) buf(1) by (simp add: st1_def)
  moreover have "length buf = length (m_outBuf st)"
    using buf(2) by (simp add: st1_def)
  moreover have "\<forall>j<length buf. buf ! j = (if j \<in> set (i # is) then enc_char st (m_outBuf st ! j)
                                        else m_outBuf st ! j)"
    using buf(2,3) i by (auto simp: st1_def enc_char_def nth_list_update)
  ultimately show ?case by blast
qed

lemma enc_translate_upt:
  assumes "n \<le> length (m_outBuf st)" "syms_ok st \<or> n = 0" "2 ^ m_bitsPerChar st \<le> length (m_alphabet st)"
  shows "enc_translate chk st [0..<n] =
           Inr (st\<lparr>m_outBuf := map (enc_char st) (take n (m_outBuf st)) @ drop n (m_outBuf st)\<rparr>)"
proof -
  have "\<forall>i\<in>set [0..<n]. i < length (m_outBuf st) \<and> unat (m_outBuf st ! i) < 2 ^ m_bitsPerChar st \<and>
        unat (m_outBuf st ! i) < length (m_alphabet st)"
  proof
    fix i assume "i \<in> set [0..<n]"
    then have i: "i < n" "i < length (m_outBuf st)" using assms(1) by simp_all
    then have "syms_ok st" using assms(2) by auto
    then have "unat (m_outBuf st ! i) < 2 ^ m_bitsPerChar st"
      using i by (simp add: syms_ok_def list_all_length unat_less_iff_take_bit)
    with i assms(3) show "i < length (m_outBuf st) \<and> unat (m_outBuf st ! i) < 2 ^ m_bitsPerChar st \<and>
        unat (m_outBuf st ! i) < length (m_alphabet st)"
      by simp
  qed
  from enc_translate_ok [OF distinct_upt this, of chk] obtain buf where
    buf: "enc_translate chk st [0..<n] = Inr (st\<lparr>m_outBuf := buf\<rparr>)"
      "length buf = length (m_outBuf st)"
      "\<forall>i<length buf. buf ! i = (if i \<in> set [0..<n] then enc_char st (m_outBuf st ! i)
                                        else m_outBuf st ! i)"
    by blast
  have "buf = map (enc_char st) (take n (m_outBuf st)) @ drop n (m_outBuf st)"
  proof (rule nth_equalityI)
    show "length buf = length (map (enc_char st) (take n (m_outBuf st)) @ drop n (m_outBuf st))"
      using buf(2) assms(1) by simp
    fix i assume "i < length buf"
    then show "buf ! i = (map (enc_char st) (take n (m_outBuf st)) @ drop n (m_outBuf st)) ! i"
      using buf(2,3) assms(1) by (auto simp: nth_append)
  qed
  with buf(1) show ?thesis by simp
qed

lemma mult_le_cancel_pos: "(a::nat) * b \<le> c * b \<Longrightarrow> 0 < b \<Longrightarrow> a \<le> c"
  by simp

lemma enc_byte_ok:
  assumes "enc_inv st"
  shows "\<exists>st' out. enc_byte st x = Inr (st', out) \<and> enc_inv st' \<and> enc_same st st'"
proof -
  define b where "b = m_bitsPerChar st"
  define B where "B = m_outputBlockSize st"
  define P where "P = m_bytePos st * b + m_bitPos st"
  have wf: "enc_wf st" and bp: "m_bitPos st < b" and P: "P mod 8 = 0" "P < B * b"
    and ok: "m_bytePos st = 0 \<or> syms_ok st"
    using assms by (simp_all add: enc_inv_def b_def B_def P_def)
  have b: "1 \<le> b" "b \<le> 7" and Bb: "(B * b) mod 8 = 0" and len: "length (m_outBuf st) = B"
    and al: "2 ^ b \<le> length (m_alphabet st)"
    using wf by (simp_all add: enc_wf_def b_def B_def)
  define st0 where "st0 = (if m_bytePos st = 0 then st\<lparr>m_outBuf := replicate B 0\<rparr> else st)"
  have c: "(if m_bytePos st = 0 then clear_outBuf st else Inr st) = Inr st0"
    using len by (simp add: clear_outBuf_def st0_def B_def)
  have wf0: "enc_wf st0" and ok0: "syms_ok st0"
    using wf ok by (auto simp: st0_def enc_wf_def syms_ok_def B_def list_all_length)
  have f0: "m_bitPos st0 = m_bitPos st" "m_bytePos st0 = m_bytePos st" "m_bitsPerChar st0 = b"
    "m_outputBlockSize st0 = B" "m_alphabet st0 = m_alphabet st" "m_padding st0 = m_padding st"
    by (simp_all add: st0_def b_def B_def)
  have P8: "P + 8 \<le> B * b"
    using P Bb by presburger
  from enc_bits_ok [OF wf0 ok0, of 8 "ucast x"] obtain st1 where
    st1: "enc_bits st0 (ucast x) 8 = Inr st1" "enc_wf st1" "syms_ok st1"
      "m_bitPos st1 < m_bitsPerChar st1"
      "m_bytePos st1 * m_bitsPerChar st1 + m_bitPos st1 = P + 8"
      "m_bitsPerChar st1 = b" "m_outputBlockSize st1 = B"
      "m_alphabet st1 = m_alphabet st" "m_padding st1 = m_padding st"
    using bp P8 by (auto simp: f0 take_bit_ucast_byte P_def)
  have len1: "length (m_outBuf st1) = B"
    using st1(2,7) by (simp add: enc_wf_def)
  have "m_bytePos st1 * b \<le> B * b"
    using st1(5) P8 unfolding st1(6) by linarith
  from mult_le_cancel_pos [OF this] have le: "m_bytePos st1 \<le> B"
    using b(1) by simp
  show ?thesis
  proof (cases "m_bytePos st1 = B")
    case True
    have tr: "enc_translate True st1 [0..<m_bytePos st1] =
           Inr (st1\<lparr>m_outBuf := map (enc_char st1) (take (m_bytePos st1) (m_outBuf st1)) @
                                  drop (m_bytePos st1) (m_outBuf st1)\<rparr>)"
      using st1(3,6,8) al True len1 by (intro enc_translate_upt) simp_all
    define st2 where "st2 = st1\<lparr>m_outBuf := map (enc_char st1) (m_outBuf st1), m_bytePos := 0, m_bitPos := 0\<rparr>"
    have r: "enc_byte st x = Inr (st2, map (enc_char st1) (m_outBuf st1))"
      using c st1(1,7) tr True len1 le
      by (simp add: enc_byte_def st2_def)
    have "0 < B * b" using P8 by linarith
    then have "enc_inv st2"
      using st1(2,6,7) b by (simp add: enc_inv_def enc_wf_def st2_def)
    moreover have "enc_same st st2"
      using st1 by (simp add: enc_same_def st2_def b_def B_def)
    ultimately show ?thesis using r by blast
  next
    case False
    then have lt: "m_bytePos st1 < B" using le by simp
    have r: "enc_byte st x = Inr (st1, [])"
      using c st1(1,7) False le by (simp add: enc_byte_def)
    have "(m_bytePos st1 + 1) * b \<le> B * b"
      using lt by (intro mult_le_mono1) simp
    then have "m_bytePos st1 * b + m_bitPos st1 < B * b"
      using st1(4,6) by simp
    moreover have "(m_bytePos st1 * b + m_bitPos st1) mod 8 = 0"
    proof -
      have "(P + 8) mod 8 = 0" using P(1) by presburger
      then show ?thesis by (simp only: st1(5) [unfolded st1(6)])
    qed
    ultimately have "enc_inv st1"
      using st1(2,3,4,6,7) by (simp add: enc_inv_def)
    moreover have "enc_same st st1"
      using st1 by (simp add: enc_same_def b_def B_def)
    ultimately show ?thesis using r by blast
  qed
qed

lemma enc_same_refl: "enc_same st st"
  by (simp add: enc_same_def)

lemma enc_same_trans: "enc_same st st' \<Longrightarrow> enc_same st' st'' \<Longrightarrow> enc_same st st''"
  by (simp add: enc_same_def)

lemma enc_loop_ok:
  "enc_inv st \<Longrightarrow> \<exists>st' out. enc_loop st xs = Inr (st', out) \<and> enc_inv st' \<and> enc_same st st'"
proof (induction xs arbitrary: st)
  case Nil
  then show ?case by (simp add: enc_same_refl)
next
  case (Cons x xs)
  from enc_byte_ok [OF Cons.prems, of x] obtain st1 out1 where
    1: "enc_byte st x = Inr (st1, out1)" "enc_inv st1" "enc_same st st1" by blast
  from Cons.IH [OF 1(2)] obtain st2 out2 where
    2: "enc_loop st1 xs = Inr (st2, out2)" "enc_inv st2" "enc_same st1 st2" by blast
  have "enc_loop st (x # xs) = Inr (st2, out1 @ out2)"
    using 1(1) 2(1) by simp
  with 2(2) enc_same_trans [OF 1(3) 2(3)] show ?case by blast
qed

lemma enc_inv_pending:
  assumes "enc_inv st"
  shows "enc_pending st \<le> m_outputBlockSize st" "0 < enc_pending st \<Longrightarrow> syms_ok st"
proof -
  define b where "b = m_bitsPerChar st"
  have P: "(m_bytePos st * b + m_bitPos st) mod 8 = 0"
    "m_bytePos st * b + m_bitPos st < m_outputBlockSize st * b" and bp: "m_bitPos st < b" "b \<le> 7"
    and ok: "m_bytePos st = 0 \<or> syms_ok st"
    using assms by (simp_all add: enc_inv_def enc_wf_def b_def)
  have "m_bytePos st < m_outputBlockSize st"
  proof (rule ccontr)
    assume "\<not> m_bytePos st < m_outputBlockSize st"
    then have "m_outputBlockSize st \<le> m_bytePos st" by simp
    then have "m_outputBlockSize st * b \<le> m_bytePos st * b" by (rule mult_le_mono1)
    with P(2) show False by linarith
  qed
  then show "enc_pending st \<le> m_outputBlockSize st"
    by (simp add: enc_pending_def)
  assume "0 < enc_pending st"
  have "m_bytePos st \<noteq> 0"
  proof
    assume z: "m_bytePos st = 0"
    with P(1) have "m_bitPos st mod 8 = 0" by simp
    with bp have "m_bitPos st = 0" by arith
    with z \<open>0 < enc_pending st\<close> show False by (simp add: enc_pending_def)
  qed
  with ok show "syms_ok st" by simp
qed

lemma enc_message_end_ok:
  assumes "enc_inv st"
  shows "\<exists>st'. enc_message_end st = Inr (st', enc_tail st) \<and> enc_inv st' \<and> enc_same st st' \<and>
           m_bytePos st' = 0 \<and> m_bitPos st' = 0"
proof -
  define n where "n = enc_pending st"
  define B where "B = m_outputBlockSize st"
  define st1 where "st1 = (if m_bitPos st > 0 then st\<lparr>m_bytePos := m_bytePos st + 1\<rparr> else st)"
  have wf: "enc_wf st" using assms by (simp add: enc_inv_def)
  have len: "length (m_outBuf st) = B" and al: "2 ^ m_bitsPerChar st \<le> length (m_alphabet st)"
    using wf by (simp_all add: enc_wf_def B_def)
  have n: "n \<le> B" and ok: "syms_ok st \<or> n = 0"
    using enc_inv_pending [OF assms] by (auto simp: n_def B_def)
  have f1: "m_bytePos st1 = n" "m_outBuf st1 = m_outBuf st" "m_bitsPerChar st1 = m_bitsPerChar st"
    "m_alphabet st1 = m_alphabet st" "m_padding st1 = m_padding st" "m_outputBlockSize st1 = B"
    by (simp_all add: st1_def n_def enc_pending_def B_def)
  have ok1: "syms_ok st1 \<or> n = 0"
    using ok by (auto simp: syms_ok_def f1)
  define buf where "buf = map (enc_char st) (take n (m_outBuf st)) @ drop n (m_outBuf st)"
  have ec: "enc_char st1 = enc_char st"
    by (rule ext) (simp add: enc_char_def f1)
  have tr: "enc_translate False st1 [0..<m_bytePos st1] = Inr (st1\<lparr>m_outBuf := buf\<rparr>)"
    using enc_translate_upt [of n st1 False] n len ok1 al
    by (simp add: f1 buf_def ec)
  have lb: "length buf = B" using len n by (simp add: buf_def)
  have tk: "take n buf = map (enc_char st) (take n (m_outBuf st))"
    using len n by (simp add: buf_def)
  have Bpos: "0 < B * m_bitsPerChar st"
    using assms unfolding enc_inv_def B_def by linarith
  define st' where "st' = st1\<lparr>m_outBuf :=
      (if m_padding st \<noteq> - 1 \<and> 0 < n
       then take n buf @ replicate (B - n) (word_of_int (m_padding st)) @ drop B buf else buf),
      m_bytePos := 0, m_bitPos := 0\<rparr>"
  have "enc_message_end st = Inr (st', enc_tail st)"
    unfolding enc_message_end_def
    using tr n lb tk len
    by (simp add: Let_def f1 st'_def enc_tail_def flip: st1_def n_def B_def)
  moreover have "enc_inv st'"
    using wf Bpos n lb
    by (simp add: enc_inv_def enc_wf_def st'_def f1 B_def)
  moreover have "enc_same st st'"
    by (simp add: enc_same_def st'_def f1 B_def)
  moreover have "m_bytePos st' = 0 \<and> m_bitPos st' = 0"
    by (simp add: st'_def)
  ultimately show ?thesis by blast
qed

lemma BaseN_Encoder_Put2_ok:
  assumes "enc_inv st"
  shows "\<exists>st' out. BaseN_Encoder_Put2 st xs e = Inr (st', out) \<and> enc_inv st' \<and> enc_same st st'"
proof -
  from enc_loop_ok [OF assms, of xs] obtain st1 out1 where
    1: "enc_loop st xs = Inr (st1, out1)" "enc_inv st1" "enc_same st st1" by blast
  from enc_message_end_ok [OF 1(2)] obtain st2 where
    2: "enc_message_end st1 = Inr (st2, enc_tail st1)" "enc_inv st2" "enc_same st1 st2" by blast
  show ?thesis
  proof (cases e)
    case True
    then have "BaseN_Encoder_Put2 st xs e = Inr (st2, out1 @ enc_tail st1)"
      using 1(1) 2(1) by (simp add: BaseN_Encoder_Put2_def)
    with 2(2) enc_same_trans [OF 1(3) 2(3)] show ?thesis by blast
  next
    case False
    then have "BaseN_Encoder_Put2 st xs e = Inr (st1, out1)"
      using 1(1) by (simp add: BaseN_Encoder_Put2_def)
    with 1(2,3) show ?thesis by blast
  qed
qed

lemma BaseN_Encoder_Puts_ok:
  "enc_inv st \<Longrightarrow>
     \<exists>st' out. BaseN_Encoder_Puts st calls = Inr (st', out) \<and> enc_inv st' \<and> enc_same st st'"
proof (induction calls arbitrary: st)
  case Nil
  then show ?case by (simp add: enc_same_refl)
next
  case (Cons c calls)
  obtain xs e where c: "c = (xs, e)" by (cases c)
  from BaseN_Encoder_Put2_ok [OF Cons.prems, of xs e] obtain st1 out1 where
    1: "BaseN_Encoder_Put2 st xs e = Inr (st1, out1)" "enc_inv st1" "enc_same st st1" by blast
  from Cons.IH [OF 1(2)] obtain st2 out2 where
    2: "BaseN_Encoder_Puts st1 calls = Inr (st2, out2)" "enc_inv st2" "enc_same st1 st2" by blast
  have "BaseN_Encoder_Puts st (c # calls) = Inr (st2, out1 @ out2)"
    using 1(1) 2(1) by (simp add: c)
  with 2(2) enc_same_trans [OF 1(3) 2(3)] show ?case by blast
qed

lemma BaseN_Encoder_IsolatedInitialize_ok:
  assumes "EncodingLookupArray p = Some A" "Log2Base p = Some b" "1 \<le> b" "b \<le> 7"
  shows "\<exists>st. BaseN_Encoder_IsolatedInitialize p = Inr st \<and>
           m_bitsPerChar st = nat b \<and> m_alphabet st = A \<and> m_bytePos st = 0 \<and> m_bitPos st = 0 \<and>
           m_outputBlockSize st * nat b mod 8 = 0 \<and> 0 < m_outputBlockSize st \<and>
           length (m_outBuf st) = m_outputBlockSize st \<and>
           m_outputBlockSize st = (if b = 1 \<or> b = 3 \<or> b = 5 \<or> b = 7 then 8
                                   else if b = 2 \<or> b = 6 then 4 else 2) \<and>
           m_padding st = (case PaddingByte p of
                             Some padding \<Rightarrow>
                               if (case Pad p of Some pad \<Rightarrow> pad | None \<Rightarrow> True)
                               then uint padding else - 1
                           | None \<Rightarrow> - 1)"
proof -
  from assms(3,4) consider "b = 1" | "b = 2" | "b = 3" | "b = 4" | "b = 5" | "b = 6" | "b = 7"
    by arith
  then show ?thesis
    using assms(1,2) block_size_loop_enc [of "nat b"]
    by cases (simp_all add: BaseN_Encoder_IsolatedInitialize_def)
qed

lemma BaseN_Encoder_IsolatedInitialize_inv:
  assumes "BaseN_Encoder_IsolatedInitialize p = Inr st" "2 ^ m_bitsPerChar st \<le> length (m_alphabet st)"
  shows "enc_inv st"
proof -
  from assms(1) obtain A b where p: "EncodingLookupArray p = Some A" "Log2Base p = Some b"
    "1 \<le> b" "b \<le> 7"
    by (auto simp: BaseN_Encoder_IsolatedInitialize_def split: option.splits if_splits)
  from BaseN_Encoder_IsolatedInitialize_ok [OF p] assms p(3,4) show ?thesis
    by (auto simp: enc_inv_def enc_wf_def)
qed

section \<open>Decoder: skipped characters\<close>

lemma dec_carry_lookup: "m_lookup (dec_carry st) = m_lookup st"
proof (induction st rule: dec_carry.induct)
  case (1 st)
  show ?case
  proof (cases "8 \<le> m_bitPos st")
    case True
    with 1 show ?thesis by (subst dec_carry.simps) simp
  next
    case False
    then show ?thesis by (subst dec_carry.simps) simp
  qed
qed

lemma dec_ignores_value:
  assumes "dec_ignores st c"
  shows "(256 :: word32) \<le> word_of_int (m_lookup st c)"
proof -
  define v where "v = m_lookup st c"
  have "(256::int) \<le> v mod 2 ^ 32"
  proof (cases "v < 0")
    case True
    with assms have "- (2 ^ 31) \<le> v" by (auto simp: dec_ignores_def v_def)
    with True have "(v + 2 ^ 32) mod 2 ^ 32 = v + 2 ^ 32"
      by (intro mod_pos_pos_trivial) simp_all
    then have "v mod 2 ^ 32 = v + 2 ^ 32"
      by simp
    with \<open>- (2 ^ 31) \<le> v\<close> show ?thesis by simp
  next
    case False
    with assms have "256 \<le> v" "v < 2 ^ 31" by (auto simp: dec_ignores_def v_def)
    then have "v mod 2 ^ 32 = v" by simp
    with \<open>256 \<le> v\<close> show ?thesis by simp
  qed
  then show ?thesis
    by (simp add: word_le_def uint_word_of_int flip: v_def)
qed

lemma dec_char_ignored: "dec_ignores st c \<Longrightarrow> dec_char st c = Inr (st, [])"
  using dec_ignores_value [of st c] by (simp add: dec_char_def Let_def)

lemma dec_char_lookup: "dec_char st c = Inr (st', out) \<Longrightarrow> m_lookup st' = m_lookup st"
  by (auto simp: dec_char_def Let_def clear_outBuf_def dec_carry_lookup
           split: if_splits sum.splits)

lemma dec_ignores_cong: "m_lookup st' = m_lookup st \<Longrightarrow> dec_ignores st' c = dec_ignores st c"
  by (simp add: dec_ignores_def)

lemma dec_loop_lookup: "dec_loop st cs = Inr (st', out) \<Longrightarrow> m_lookup st' = m_lookup st"
proof (induction cs arbitrary: st out)
  case Nil
  then show ?case by simp
next
  case (Cons c cs)
  then show ?case
    by (auto split: sum.splits prod.splits dest!: dec_char_lookup)
qed

lemma dec_loop_ignored: "\<forall>c\<in>set ig. dec_ignores st c \<Longrightarrow> dec_loop st (ig @ ys) = dec_loop st ys"
  by (induction ig) (auto simp: dec_char_ignored split: sum.splits prod.splits)

lemma dec_loop_insert_ignored:
  assumes "\<forall>c\<in>set ig. dec_ignores st c"
  shows "dec_loop st (xs @ ig @ ys) = dec_loop st (xs @ ys)"
proof (cases "dec_loop st xs")
  case (Inl e)
  then show ?thesis by (simp add: dec_loop_append)
next
  case (Inr r)
  obtain st1 out1 where r: "r = (st1, out1)" by (cases r)
  from Inr r have "m_lookup st1 = m_lookup st" by (auto dest: dec_loop_lookup)
  with assms have "\<forall>c\<in>set ig. dec_ignores st1 c" by (simp add: dec_ignores_def)
  then have "dec_loop st1 (ig @ ys) = dec_loop st1 ys" by (rule dec_loop_ignored)
  with Inr r show ?thesis by (simp add: dec_loop_append)
qed

lemma join_Cons: "ys \<noteq> [] \<Longrightarrow> join sep (x # ys) = x @ sep @ join sep ys"
  by (cases ys) simp_all

lemma chunks_Nil: "chunks n [] = []"
  by (subst chunks.simps) simp

lemma chunks_step: "0 < n \<Longrightarrow> xs \<noteq> [] \<Longrightarrow> chunks n xs = take n xs # chunks n (drop n xs)"
  by (subst chunks.simps) simp

lemma chunks_eq_Nil: "0 < n \<Longrightarrow> chunks n xs = [] \<longleftrightarrow> xs = []"
  by (subst chunks.simps) simp

lemma Grouper_loop_counter:
  "(fst (Grouper_loop st input))\<lparr>m_counter := c\<rparr> = st\<lparr>m_counter := c\<rparr>"
proof (induction "length input" arbitrary: st input rule: less_induct)
  case less
  show ?case
  proof (cases "m_groupSize st = 0 \<or> input = []")
    case True
    then show ?thesis by (auto simp: Grouper_loop_stop)
  next
    case False
    then have g: "m_groupSize st \<noteq> 0" and i: "input \<noteq> []" by auto
    define len where "len = min (length input) (Grouper_room st)"
    have "0 < len" using Grouper_room_pos [OF g] i by (cases input) (auto simp: len_def)
    then have sh: "length (drop len input) < length input" using i by (cases input) auto
    show ?thesis
      using less.hyps [OF sh]
      by (simp add: Grouper_loop_step [OF g i] Let_def Grouper_sep_def flip: len_def)
  qed
qed

lemma Grouper_loop_spec:
  assumes "m_groupSize st \<noteq> 0" "m_counter st = 0 \<or> m_counter st = m_groupSize st"
  shows "snd (Grouper_loop st s) =
           (if s \<noteq> [] \<and> m_counter st = m_groupSize st then m_separator st else []) @
           join (m_separator st) (chunks (unat (m_groupSize st)) s)"
  using assms
proof (induction "length s" arbitrary: st s rule: less_induct)
  case less
  define G where "G = unat (m_groupSize st)"
  have G: "0 < G" using less.prems(1) by (simp add: G_def unat_gt_0)
  show ?case
  proof (cases "s = []")
    case True
    then show ?thesis by (simp add: Grouper_loop_stop chunks_Nil)
  next
    case False
    define st1 where "st1 = fst (Grouper_sep st)"
    have c1: "m_counter st1 = 0" and g1: "m_groupSize st1 = m_groupSize st"
      and s1: "m_separator st1 = m_separator st"
      using less.prems(2) by (auto simp: st1_def Grouper_sep_def)
    have room: "Grouper_room st = G"
      using c1 g1 by (simp add: Grouper_room_def G_def flip: st1_def)
    have sep: "snd (Grouper_sep st) = (if m_counter st = m_groupSize st then m_separator st else [])"
      by (simp add: Grouper_sep_def)
    define len where "len = min (length s) G"
    define st2 where "st2 = st1\<lparr>m_counter := m_counter st1 + of_nat len\<rparr>"
    have step: "snd (Grouper_loop st s) =
                  snd (Grouper_sep st) @ take len s @ snd (Grouper_loop st2 (drop len s))"
      by (simp add: Grouper_loop_step [OF less.prems(1) False] Let_def room st2_def len_def
          flip: st1_def)
    show ?thesis
    proof (cases "length s \<le> G")
      case True
      then have "len = length s" by (simp add: len_def)
      moreover have "chunks G s = [s]"
        using True G False by (simp add: chunks_step chunks_Nil)
      ultimately show ?thesis
        using False by (simp add: step sep Grouper_loop_stop flip: G_def)
    next
      case gt: False
      then have len: "len = G" by (simp add: len_def)
      have dne: "drop G s \<noteq> []" using gt by simp
      have sh: "length (drop G s) < length s" using G False by (cases s) auto
      have c2: "m_counter st2 = m_groupSize st2" and g2: "m_groupSize st2 = m_groupSize st"
        and s2: "m_separator st2 = m_separator st"
        by (simp_all add: st2_def c1 g1 s1 len G_def)
      have "snd (Grouper_loop st2 (drop G s)) =
              (if drop G s \<noteq> [] \<and> m_counter st2 = m_groupSize st2 then m_separator st2 else []) @
              join (m_separator st2) (chunks (unat (m_groupSize st2)) (drop G s))"
        using less.prems(1) c2 g2 by (intro less.hyps [OF sh]) simp_all
      then have rec: "snd (Grouper_loop st2 (drop G s)) =
              m_separator st @ join (m_separator st) (chunks G (drop G s))"
        using dne c2 by (simp add: g2 s2 G_def)
      have "chunks G (drop G s) \<noteq> []"
        using dne G by (simp add: chunks_eq_Nil)
      then have "join (m_separator st) (chunks G s) =
                   take G s @ m_separator st @ join (m_separator st) (chunks G (drop G s))"
        using G False by (simp add: chunks_step join_Cons)
      then show ?thesis
        using False by (simp add: step sep rec len flip: G_def)
    qed
  qed
qed

section \<open>Evaluation of the examples\<close>

lemma base64_alphabet_eval:
  "base64_alphabet =
     [0x41, 0x42, 0x43, 0x44, 0x45, 0x46, 0x47, 0x48, 0x49, 0x4A, 0x4B, 0x4C, 0x4D, 0x4E, 0x4F, 0x50, 0x51, 0x52, 0x53, 0x54, 0x55, 0x56,
      0x57, 0x58, 0x59, 0x5A, 0x61, 0x62, 0x63, 0x64, 0x65, 0x66, 0x67, 0x68, 0x69, 0x6A, 0x6B, 0x6C, 0x6D, 0x6E, 0x6F,
      0x70, 0x71, 0x72, 0x73, 0x74, 0x75, 0x76, 0x77, 0x78, 0x79, 0x7A, 0x30, 0x31, 0x32, 0x33, 0x34, 0x35, 0x36, 0x37,
      0x38, 0x39, 0x2B, 0x2F]"
  by (simp add: base64_alphabet_def ascii_def)

lemma base64_init: "BaseN_Encoder_IsolatedInitialize base64_parameters = Inr base64_encoder"
  by (simp add: BaseN_Encoder_IsolatedInitialize_def base64_parameters_def no_parameters_def
      base64_encoder_def block_size_loop_enc replicate_numeral)

lemma base64_alphabet_length: "2 ^ m_bitsPerChar base64_encoder \<le> length (m_alphabet base64_encoder)"
  by (simp add: base64_encoder_def base64_alphabet_eval)

lemmas enc_eval = enc_byte_def clear_outBuf_def enc_bits.simps Let_def enc_message_end_def
  BaseN_Encoder_Put2_def upt_numeral list_update_numeral replicate_numeral base64_alphabet_eval
  base64_encoder_def ascii_def enc_tail_def enc_pending_def enc_char_def

lemma base64_Ma:
  "BaseN_Encoder_Put2 base64_encoder (ascii ''Ma'') True =
     Inr (base64_encoder\<lparr>m_outBuf := ascii ''TWE=''\<rparr>, ascii ''TWE='')"
  by (simp add: enc_eval cong: let_weak_cong sum.case_cong_weak)

lemma base64_M:
  "BaseN_Encoder_Put2 base64_encoder (ascii ''M'') True =
     Inr (base64_encoder\<lparr>m_outBuf := ascii ''TQ==''\<rparr>, ascii ''TQ=='')"
  by (simp add: enc_eval cong: let_weak_cong sum.case_cong_weak)

lemma base64_Man:
  "BaseN_Encoder_Put2 base64_encoder (ascii ''Man'') True =
     Inr (base64_encoder\<lparr>m_outBuf := ascii ''TWFu''\<rparr>, ascii ''TWFu'')"
  by (simp add: enc_eval cong: let_weak_cong sum.case_cong_weak)

lemma base64_Ma_pending:
  "BaseN_Encoder_Puts base64_encoder [(ascii ''Ma'', False)] =
     Inr (base64_encoder\<lparr>m_outBuf := [19, 22, 4, 0], m_bytePos := 2, m_bitPos := 4\<rparr>, [])"
  by (simp add: enc_eval cong: let_weak_cong sum.case_cong_weak)

section \<open>Base-N encoder: end of message\<close>

text \<open>
  Claim C5. At the end of a message the encoder first counts a begun symbol as a full
  one (\<open>enc_pending\<close>). If padding is enabled and that count is positive, the positions
  from the count up to the block size hold the padding byte and exactly
  \<open>m_outputBlockSize\<close> characters are flushed; otherwise exactly the counted characters
  are flushed. This holds in every state that an initialised encoder, with an alphabet
  that has an entry for each symbol, reaches through \<^verbatim>\<open>Put2\<close> calls. The witness
  includes the two examples: Base64 of \<open>Ma\<close> is \<open>TWE=\<close> and of \<open>M\<close> is \<open>TQ==\<close>.
\<close>

theorem encoder_message_end_padding:
  assumes "BaseN_Encoder_IsolatedInitialize p = Inr st0"
    and "2 ^ m_bitsPerChar st0 \<le> length (m_alphabet st0)"
    and "BaseN_Encoder_Puts st0 calls = Inr (st, out0)"
  shows "(\<exists>st'. BaseN_Encoder_Put2 st [] True = Inr (st', enc_tail st) \<and>
                m_bytePos st' = 0 \<and> m_bitPos st' = 0) \<and>
         enc_pending st \<le> m_outputBlockSize st \<and>
         take (enc_pending st) (enc_tail st) =
           map (enc_char st) (take (enc_pending st) (m_outBuf st)) \<and>
         (if m_padding st \<noteq> - 1 \<and> 0 < enc_pending st
          then length (enc_tail st) = m_outputBlockSize st \<and>
               drop (enc_pending st) (enc_tail st) =
                 replicate (m_outputBlockSize st - enc_pending st) (word_of_int (m_padding st))
          else length (enc_tail st) = enc_pending st)"
proof -
  have "enc_inv st0"
    using assms(1,2) by (rule BaseN_Encoder_IsolatedInitialize_inv)
  from BaseN_Encoder_Puts_ok [OF this, of calls] assms(3) have inv: "enc_inv st"
    by auto
  from enc_message_end_ok [OF inv] obtain st' where
    st': "enc_message_end st = Inr (st', enc_tail st)" "m_bytePos st' = 0" "m_bitPos st' = 0"
    by blast
  have n: "enc_pending st \<le> m_outputBlockSize st"
    using enc_inv_pending(1) [OF inv] .
  have len: "length (m_outBuf st) = m_outputBlockSize st"
    using inv by (simp add: enc_inv_def enc_wf_def)
  have "BaseN_Encoder_Put2 st [] True = Inr (st', enc_tail st)"
    using st'(1) by (simp add: BaseN_Encoder_Put2_def)
  with st'(2,3) n len show ?thesis
    by (auto simp: enc_tail_def)
qed

theorem encoder_message_end_padding_witness:
  "BaseN_Encoder_IsolatedInitialize base64_parameters = Inr base64_encoder \<and>
   2 ^ m_bitsPerChar base64_encoder \<le> length (m_alphabet base64_encoder) \<and>
   (\<exists>st. BaseN_Encoder_Puts base64_encoder [(ascii ''Ma'', False)] = Inr (st, []) \<and>
         enc_pending st = 3 \<and> m_outputBlockSize st = 4 \<and>
         (\<exists>st'. BaseN_Encoder_Put2 st [] True = Inr (st', ascii ''TWE=''))) \<and>
   (\<exists>st'. BaseN_Encoder_Put2 base64_encoder (ascii ''Ma'') True = Inr (st', ascii ''TWE='')) \<and>
   (\<exists>st'. BaseN_Encoder_Put2 base64_encoder (ascii ''M'') True = Inr (st', ascii ''TQ==''))"
proof -
  define st where "st = base64_encoder\<lparr>m_outBuf := [19, 22, 4, 0], m_bytePos := 2, m_bitPos := 4\<rparr>"
  have puts: "BaseN_Encoder_Puts base64_encoder [(ascii ''Ma'', False)] = Inr (st, [])"
    unfolding st_def by (rule base64_Ma_pending)
  from encoder_message_end_padding [OF base64_init base64_alphabet_length puts]
  obtain st' where "BaseN_Encoder_Put2 st [] True = Inr (st', enc_tail st)"
    by blast
  moreover have "enc_tail st = ascii ''TWE=''"
    by (simp add: st_def enc_eval)
  moreover have "enc_pending st = 3" "m_outputBlockSize st = 4"
    by (simp_all add: st_def enc_pending_def base64_encoder_def)
  ultimately show ?thesis
    using base64_init base64_alphabet_length puts base64_Ma base64_M by auto
qed

section \<open>Base-N decoder: ignored characters\<close>

text \<open>
  Claim C6. A character whose lookup entry is the ignore sentinel (\<open>dec_ignores\<close>: the
  entry is negative, as the sentinel \<open>-1\<close> is, or at least 256) leaves the decoder state
  unchanged and emits nothing. Hence inserting any run of such characters at any place
  of an input changes neither the bytes that \<^verbatim>\<open>Put2\<close> emits nor the state it leaves.
\<close>

theorem decoder_ignores_sentinel_characters:
  assumes "\<forall>c\<in>set ig. dec_ignores st c"
  shows "(\<forall>c\<in>set ig. dec_char st c = Inr (st, [])) \<and>
         BaseN_Decoder_Put2 st (xs @ ig @ ys) e = BaseN_Decoder_Put2 st (xs @ ys) e"
  using assms dec_loop_insert_ignored [OF assms, of xs ys]
  by (simp add: dec_char_ignored BaseN_Decoder_Put2_def)

lemma not_256_le_1: "\<not> 256 \<le> (1 :: word32)"
  by (simp add: word_le_nat_alt)

lemmas dec_eval = not_256_le_1 dec_char_def clear_outBuf_def dec_carry.simps Let_def dec_message_end_def
  BaseN_Decoder_Put2_def list_update_numeral replicate_numeral binary_decoder_def ascii_def

lemma binary_decoder_ignores: "dec_ignores binary_decoder 0x20" "dec_ignores binary_decoder 0x0A"
  by (simp_all add: dec_ignores_def binary_decoder_def)

lemma binary_decoder_A:
  "BaseN_Decoder_Put2 binary_decoder (ascii ''01000001'') True =
     Inr (binary_decoder\<lparr>m_outBuf := [0x41]\<rparr>, [0x41])"
  by (simp add: dec_eval cong: let_weak_cong sum.case_cong_weak)

theorem decoder_ignores_sentinel_characters_witness:
  "dec_ignores binary_decoder 0x20 \<and> dec_ignores binary_decoder 0x0A \<and>
   dec_char binary_decoder 0x20 = Inr (binary_decoder, []) \<and>
   BaseN_Decoder_Put2 binary_decoder (ascii ''0100'' @ [0x20, 0x0A] @ ascii ''0001'') True =
     Inr (binary_decoder\<lparr>m_outBuf := [0x41]\<rparr>, [0x41])"
proof -
  have ig: "\<forall>c\<in>set [0x20, 0x0A]. dec_ignores binary_decoder c"
    using binary_decoder_ignores by simp
  have "ascii ''0100'' @ ascii ''0001'' = ascii ''01000001''"
    by (simp add: ascii_def)
  with decoder_ignores_sentinel_characters [OF ig, of "ascii ''0100''" "ascii ''0001''" True]
    binary_decoder_A binary_decoder_ignores
  show ?thesis by simp
qed

section \<open>Grouper: separators and terminator\<close>

text \<open>
  Claim C7. For a grouper with a group size \<open>g > 0\<close> at the start of a message
  (\<open>m_counter = 0\<close>), \<^verbatim>\<open>Put2\<close> with end of message emits the input cut into consecutive
  groups of \<open>g\<close> bytes with the separator exactly once between any two consecutive
  groups, none before the first and none after the last, then the terminator, and leaves
  the counter reset. The witness is the example: group size 4, separator a blank and
  terminator a newline turn \<open>TWFuTWFu\<close> into \<open>TWFu TWFu\<close> and a newline.
\<close>

theorem grouper_separates_groups:
  assumes "m_groupSize st \<noteq> 0" "m_counter st = 0"
  shows "Grouper_Put2 st s True =
           (st, join (m_separator st) (chunks (unat (m_groupSize st)) s) @ m_terminator st)"
proof -
  obtain st' out where l: "Grouper_loop st s = (st', out)"
    by (cases "Grouper_loop st s")
  have "out = join (m_separator st) (chunks (unat (m_groupSize st)) s)"
    using Grouper_loop_spec [OF assms(1), of s] assms l by auto
  moreover have "st'\<lparr>m_counter := 0\<rparr> = st"
    using Grouper_loop_counter [where st = st and input = s and c = 0] assms(2) l by simp
  moreover have "m_terminator st' = m_terminator st"
    using Grouper_loop_groupSize [OF l] by simp
  ultimately show ?thesis
    using assms(1) l by (simp add: Grouper_Put2_def)
qed

theorem grouper_separates_groups_witness:
  "m_groupSize example_grouper \<noteq> 0 \<and> m_counter example_grouper = 0 \<and>
   Grouper_Put2 example_grouper (ascii ''TWFuTWFu'') True =
     (example_grouper, ascii ''TWFu TWFu'' @ [0x0A])"
  using grouper_separates_groups [of example_grouper "ascii ''TWFuTWFu''"]
  by (simp add: example_grouper_def ascii_def chunks.simps)

section \<open>Base-N encoder: initialisation\<close>

text \<open>
  Claim C8. \<^verbatim>\<open>BaseN_Encoder::IsolatedInitialize\<close> fails with \<open>InvalidArgument\<close> whenever
  the \<^verbatim>\<open>Log2Base\<close> parameter is outside 1..7 (with the message of the range check when
  the alphabet is present) and whenever the alphabet parameter is missing. When both
  parameters are valid (the \<^verbatim>\<open>Log2Base\<close> in 1..7 and an alphabet with an entry for each
  of the \<open>2 ^ Log2Base\<close> symbols) it returns an encoder, and no sequence of \<^verbatim>\<open>Put2\<close>
  calls on it fails: no assertion fires and no access leaves the buffer or the alphabet.
\<close>

theorem encoder_initialize_errors:
  "(Log2Base p = Some b \<and> (b < 1 \<or> 7 < b) \<longrightarrow>
      (\<exists>msg. BaseN_Encoder_IsolatedInitialize p = Inl (InvalidArgument msg)) \<and>
      (EncodingLookupArray p \<noteq> None \<longrightarrow>
         BaseN_Encoder_IsolatedInitialize p =
           Inl (InvalidArgument ''BaseN_Encoder: Log2Base must be between 1 and 7 inclusive''))) \<and>
   (EncodingLookupArray p = None \<longrightarrow>
      (\<exists>msg. BaseN_Encoder_IsolatedInitialize p = Inl (InvalidArgument msg))) \<and>
   (EncodingLookupArray p = Some A \<and> Log2Base p = Some b \<and> 1 \<le> b \<and> b \<le> 7 \<and>
    2 ^ nat b \<le> length A \<longrightarrow>
      (\<exists>st. BaseN_Encoder_IsolatedInitialize p = Inr st \<and>
            (\<forall>calls. \<exists>st' out. BaseN_Encoder_Puts st calls = Inr (st', out))))"
proof (intro conjI impI)
  assume "Log2Base p = Some b \<and> (b < 1 \<or> 7 < b)"
  then show "\<exists>msg. BaseN_Encoder_IsolatedInitialize p = Inl (InvalidArgument msg)"
    by (auto simp: BaseN_Encoder_IsolatedInitialize_def missing_parameter_def
             split: option.splits)
next
  assume "Log2Base p = Some b \<and> (b < 1 \<or> 7 < b)" "EncodingLookupArray p \<noteq> None"
  then show "BaseN_Encoder_IsolatedInitialize p =
           Inl (InvalidArgument ''BaseN_Encoder: Log2Base must be between 1 and 7 inclusive'')"
    by (auto simp: BaseN_Encoder_IsolatedInitialize_def split: option.splits)
next
  assume "EncodingLookupArray p = None"
  then show "\<exists>msg. BaseN_Encoder_IsolatedInitialize p = Inl (InvalidArgument msg)"
    by (simp add: BaseN_Encoder_IsolatedInitialize_def missing_parameter_def)
next
  assume a: "EncodingLookupArray p = Some A \<and> Log2Base p = Some b \<and> 1 \<le> b \<and> b \<le> 7 \<and>
    2 ^ nat b \<le> length A"
  then obtain st where st: "BaseN_Encoder_IsolatedInitialize p = Inr st"
    "m_bitsPerChar st = nat b" "m_alphabet st = A"
    using BaseN_Encoder_IsolatedInitialize_ok [of p A b] by blast
  with a have "enc_inv st"
    by (intro BaseN_Encoder_IsolatedInitialize_inv [of p]) simp_all
  then have "\<forall>calls. \<exists>st' out. BaseN_Encoder_Puts st calls = Inr (st', out)"
    using BaseN_Encoder_Puts_ok by blast
  with st(1) show "\<exists>st. BaseN_Encoder_IsolatedInitialize p = Inr st \<and>
            (\<forall>calls. \<exists>st' out. BaseN_Encoder_Puts st calls = Inr (st', out))"
    by blast
qed

theorem encoder_initialize_errors_witness:
  "BaseN_Encoder_IsolatedInitialize (base64_parameters\<lparr>Log2Base := Some 8\<rparr>) =
     Inl (InvalidArgument ''BaseN_Encoder: Log2Base must be between 1 and 7 inclusive'') \<and>
   BaseN_Encoder_IsolatedInitialize (base64_parameters\<lparr>Log2Base := Some 0\<rparr>) =
     Inl (InvalidArgument ''BaseN_Encoder: Log2Base must be between 1 and 7 inclusive'') \<and>
   (\<exists>msg. BaseN_Encoder_IsolatedInitialize (base64_parameters\<lparr>EncodingLookupArray := None\<rparr>) =
     Inl (InvalidArgument msg)) \<and>
   (\<exists>st. BaseN_Encoder_IsolatedInitialize base64_parameters = Inr st \<and>
         (\<exists>st' out. BaseN_Encoder_Puts st [(ascii ''M'', False), (ascii ''an'', True)] =
                       Inr (st', out)))"
proof -
  define p8 where "p8 = base64_parameters\<lparr>Log2Base := Some 8\<rparr>"
  define p0 where "p0 = base64_parameters\<lparr>Log2Base := Some 0\<rparr>"
  define pn where "pn = base64_parameters\<lparr>EncodingLookupArray := None\<rparr>"
  have 8: "Log2Base p8 = Some 8 \<and> ((8::int) < 1 \<or> (7::int) < 8)" "EncodingLookupArray p8 \<noteq> None"
    by (simp_all add: p8_def base64_parameters_def no_parameters_def)
  have 0: "Log2Base p0 = Some 0 \<and> ((0::int) < 1 \<or> (7::int) < 0)" "EncodingLookupArray p0 \<noteq> None"
    by (simp_all add: p0_def base64_parameters_def no_parameters_def)
  have n: "EncodingLookupArray pn = None"
    by (simp add: pn_def)
  have 6: "EncodingLookupArray base64_parameters = Some base64_alphabet \<and>
      Log2Base base64_parameters = Some 6 \<and> (1::int) \<le> 6 \<and> (6::int) \<le> 7 \<and>
      2 ^ nat 6 \<le> length base64_alphabet"
    by (simp add: base64_parameters_def no_parameters_def base64_alphabet_eval)
  have "BaseN_Encoder_IsolatedInitialize p8 =
     Inl (InvalidArgument ''BaseN_Encoder: Log2Base must be between 1 and 7 inclusive'')"
    using encoder_initialize_errors [of p8 8 base64_alphabet] 8 by blast
  moreover have "BaseN_Encoder_IsolatedInitialize p0 =
     Inl (InvalidArgument ''BaseN_Encoder: Log2Base must be between 1 and 7 inclusive'')"
    using encoder_initialize_errors [of p0 0 base64_alphabet] 0 by blast
  moreover have "\<exists>msg. BaseN_Encoder_IsolatedInitialize pn = Inl (InvalidArgument msg)"
    using encoder_initialize_errors [of pn 6 base64_alphabet] n by blast
  moreover have "\<exists>st. BaseN_Encoder_IsolatedInitialize base64_parameters = Inr st \<and>
         (\<exists>st' out. BaseN_Encoder_Puts st [(ascii ''M'', False), (ascii ''an'', True)] =
                       Inr (st', out))"
    using encoder_initialize_errors [of base64_parameters 6 base64_alphabet] 6 by blast
  ultimately show ?thesis
    unfolding p8_def p0_def pn_def by blast
qed

section \<open>Base-N encoder: padding without a padding byte\<close>

text \<open>
  Claim C9. If the \<^verbatim>\<open>PaddingByte\<close> parameter is absent, the \<^verbatim>\<open>Pad\<close> parameter is not
  consulted: \<^verbatim>\<open>IsolatedInitialize\<close> returns the same result whatever \<^verbatim>\<open>Pad\<close> is set to,
  padding is disabled (\<open>m_padding = -1\<close>), and in every state that the encoder reaches
  the end of a message flushes exactly the translated pending symbols, never padding.
\<close>

theorem encoder_padding_needs_padding_byte:
  assumes "PaddingByte p = None"
  shows "BaseN_Encoder_IsolatedInitialize (p\<lparr>Pad := pad\<rparr>) = BaseN_Encoder_IsolatedInitialize p \<and>
         (BaseN_Encoder_IsolatedInitialize p = Inr st0 \<longrightarrow> m_padding st0 = - 1) \<and>
         (BaseN_Encoder_IsolatedInitialize p = Inr st0 \<and>
          2 ^ m_bitsPerChar st0 \<le> length (m_alphabet st0) \<and>
          BaseN_Encoder_Puts st0 calls = Inr (st, out0) \<longrightarrow>
            (\<exists>st'. BaseN_Encoder_Put2 st [] True =
                     Inr (st', map (enc_char st) (take (enc_pending st) (m_outBuf st)))))"
proof (intro conjI impI)
  show "BaseN_Encoder_IsolatedInitialize (p\<lparr>Pad := pad\<rparr>) = BaseN_Encoder_IsolatedInitialize p"
    using assms by (simp add: BaseN_Encoder_IsolatedInitialize_def split: option.splits)
next
  assume "BaseN_Encoder_IsolatedInitialize p = Inr st0"
  then show "m_padding st0 = - 1"
    using assms
    by (auto simp: BaseN_Encoder_IsolatedInitialize_def split: option.splits if_splits)
next
  assume a: "BaseN_Encoder_IsolatedInitialize p = Inr st0 \<and>
          2 ^ m_bitsPerChar st0 \<le> length (m_alphabet st0) \<and>
          BaseN_Encoder_Puts st0 calls = Inr (st, out0)"
  then have pad: "m_padding st0 = - 1"
    using assms
    by (auto simp: BaseN_Encoder_IsolatedInitialize_def split: option.splits if_splits)
  from a have "enc_inv st0"
    by (intro BaseN_Encoder_IsolatedInitialize_inv [of p]) simp_all
  from BaseN_Encoder_Puts_ok [OF this, of calls] a have inv: "enc_inv st" "enc_same st0 st"
    by auto
  from enc_message_end_ok [OF inv(1)] obtain st' where
    "enc_message_end st = Inr (st', enc_tail st)" by blast
  moreover have "m_padding st = - 1"
    using inv(2) pad by (simp add: enc_same_def)
  ultimately show "\<exists>st'. BaseN_Encoder_Put2 st [] True =
                     Inr (st', map (enc_char st) (take (enc_pending st) (m_outBuf st)))"
    by (simp add: BaseN_Encoder_Put2_def enc_tail_def)
qed

theorem encoder_padding_needs_padding_byte_witness:
  "PaddingByte (base64_parameters\<lparr>PaddingByte := None, Pad := Some True\<rparr>) = None \<and>
   BaseN_Encoder_IsolatedInitialize (base64_parameters\<lparr>PaddingByte := None, Pad := Some True\<rparr>) =
     Inr (base64_encoder\<lparr>m_padding := - 1\<rparr>) \<and>
   (\<exists>st'. BaseN_Encoder_Put2 (base64_encoder\<lparr>m_padding := - 1\<rparr>) (ascii ''Ma'') True =
            Inr (st', ascii ''TWE''))"
proof -
  define p where "p = base64_parameters\<lparr>PaddingByte := None\<rparr>"
  have n: "PaddingByte p = None" by (simp add: p_def)
  have i: "BaseN_Encoder_IsolatedInitialize p = Inr (base64_encoder\<lparr>m_padding := - 1\<rparr>)"
    by (simp add: BaseN_Encoder_IsolatedInitialize_def base64_parameters_def no_parameters_def
      base64_encoder_def block_size_loop_enc replicate_numeral p_def)
  have "BaseN_Encoder_Put2 (base64_encoder\<lparr>m_padding := - 1\<rparr>) (ascii ''Ma'') True =
            Inr (base64_encoder\<lparr>m_padding := - 1, m_outBuf := ascii ''TWE'' @ [0]\<rparr>, ascii ''TWE'')"
    by (simp add: enc_eval cong: let_weak_cong sum.case_cong_weak)
  with encoder_padding_needs_padding_byte [OF n, of "Some True"] i show ?thesis
    by (simp add: p_def)
qed

section \<open>Splitting the input of a \<^verbatim>\<open>Put2\<close> call\<close>

text \<open>
  Claim C10. For the encoder, the decoder and the grouper, from any state: the call
  \<^verbatim>\<open>Put2\<close> on \<open>a\<close> without end of message followed by \<^verbatim>\<open>Put2\<close> on \<open>b\<close> with end of
  message sends downstream the same bytes, and leaves the same state or fails with the
  same error, as the single call on \<open>a @ b\<close> with end of message.
\<close>

theorem put_chunking_invariant:
  "BaseN_Encoder_Puts est [(a, False), (b, True)] = BaseN_Encoder_Put2 est (a @ b) True \<and>
   (case BaseN_Decoder_Put2 dst a False of
      Inl e \<Rightarrow> Inl e
    | Inr (st1, out1) \<Rightarrow>
        (case BaseN_Decoder_Put2 st1 b True of
           Inl e \<Rightarrow> Inl e
         | Inr (st2, out2) \<Rightarrow> Inr (st2, out1 @ out2))) =
     BaseN_Decoder_Put2 dst (a @ b) True \<and>
   (case Grouper_Put2 gst a False of
      (st1, out1) \<Rightarrow> (case Grouper_Put2 st1 b True of (st2, out2) \<Rightarrow> (st2, out1 @ out2))) =
     Grouper_Put2 gst (a @ b) True"
proof (intro conjI)
  show "BaseN_Encoder_Puts est [(a, False), (b, True)] = BaseN_Encoder_Put2 est (a @ b) True"
    by (simp add: BaseN_Encoder_Put2_def enc_loop_append split: sum.splits prod.splits)
next
  show "(case BaseN_Decoder_Put2 dst a False of
      Inl e \<Rightarrow> Inl e
    | Inr (st1, out1) \<Rightarrow>
        (case BaseN_Decoder_Put2 st1 b True of
           Inl e \<Rightarrow> Inl e
         | Inr (st2, out2) \<Rightarrow> Inr (st2, out1 @ out2))) =
     BaseN_Decoder_Put2 dst (a @ b) True"
    by (simp add: BaseN_Decoder_Put2_def dec_loop_append split: sum.splits prod.splits)
next
  show "(case Grouper_Put2 gst a False of
      (st1, out1) \<Rightarrow> (case Grouper_Put2 st1 b True of (st2, out2) \<Rightarrow> (st2, out1 @ out2))) =
     Grouper_Put2 gst (a @ b) True"
  proof (cases "m_groupSize gst = 0")
    case True
    then show ?thesis
      by (simp add: Grouper_Put2_def)
  next
    case False
    obtain st1 out1 where 1: "Grouper_loop gst a = (st1, out1)"
      by (cases "Grouper_loop gst a")
    obtain st2 out2 where 2: "Grouper_loop st1 b = (st2, out2)"
      by (cases "Grouper_loop st1 b")
    have g: "m_groupSize st1 \<noteq> 0"
      using Grouper_loop_groupSize [OF 1] False by simp
    have "Grouper_loop gst (a @ b) = (st2, out1 @ out2)"
      using 1 2 by (simp add: Grouper_loop_append)
    with 1 2 g False show ?thesis
      by (simp add: Grouper_Put2_def)
  qed
qed


end
